theory Spec2Isabelle
  imports Main "HOL-Library.AList" "HOL-Library.FSet"
begin

section \<open>Python values, exceptions and results\<close>

text \<open>
  A document as \<^verbatim>\<open>yaml.safe_load\<close> returns it: \<^verbatim>\<open>None\<close>, a bool, an int, a
  str, a list or a dict. A dict is an association list in insertion order whose keys are
  strings (\<^verbatim>\<open>str(k)\<close> is then the key itself). Floats are left out. The same type
  serves for every Python value a node stores.

  A \<^verbatim>\<open>str\<close> is the list of its code points, and a \<open>char\<close> is one code point
  below 256 (the Latin-1 range, which holds ASCII): strings with code points from 256 on
  are outside the type.
\<close>

datatype yaml =
    YNull
  | YBool bool
  | YInt int
  | YStr string
  | YList "yaml list"
  | YDict "(string \<times> yaml) list"

text \<open>An exception is its class and its message (\<^verbatim>\<open>str(e)\<close>).\<close>

datatype error =
    FileNotFoundError string
  | YAMLError string
  | ValueError string
  | TypeError string
  | IndexError string
  | KeyError string
  | AttributeError string
  | Exception string

fun str_error :: "error \<Rightarrow> string" where
  "str_error (FileNotFoundError m) = m"
| "str_error (YAMLError m) = m"
| "str_error (ValueError m) = m"
| "str_error (TypeError m) = m"
| "str_error (IndexError m) = m"
| "str_error (KeyError m) = m"
| "str_error (AttributeError m) = m"
| "str_error (Exception m) = m"

text \<open>
  A method call either returns or raises; in both cases the node is left in some state,
  which the result carries.
\<close>

datatype 'a result = Returned 'a | Raised error 'a

fun state_of :: "'a result \<Rightarrow> 'a" where
  "state_of (Returned s) = s"
| "state_of (Raised e s) = s"

fun is_raised :: "'a result \<Rightarrow> bool" where
  "is_raised (Returned s) = False"
| "is_raised (Raised e s) = True"

section \<open>Strings\<close>

definition digit_char :: "nat \<Rightarrow> char" where
  "digit_char d = char_of (48 + d)"

text \<open>The decimal numeral an f-string prints for a non-negative int.\<close>

function show_nat :: "nat \<Rightarrow> string" where
  "show_nat n =
     (if n < 10 then [digit_char n] else show_nat (n div 10) @ [digit_char (n mod 10)])"
  by pat_completeness auto
termination
  by (relation "measure (\<lambda>n. n)") auto

declare show_nat.simps [simp del]

definition show_int :: "int \<Rightarrow> string" where
  "show_int i = (if i < 0 then ''-'' @ show_nat (nat (- i)) else show_nat (nat i))"

text \<open>\<^verbatim>\<open>str(k).replace(' ', '_')\<close>: every space character becomes an underscore.\<close>

definition replace_space :: "string \<Rightarrow> string" where
  "replace_space k = map (\<lambda>c. if c = CHR '' '' then CHR ''_'' else c) k"

text \<open>
  \<^verbatim>\<open>str.lower\<close> on code points below 256: the code points 65 to 90 (A to Z) and
  192 to 222 without 215 (the accented capitals; 215 is the multiplication sign) move up
  by 32, and every other code point stays.
\<close>

definition lower_char :: "char \<Rightarrow> char" where
  "lower_char c =
     (let n = (of_char c :: nat)
      in if (65 \<le> n \<and> n \<le> 90) \<or> (192 \<le> n \<and> n \<le> 222 \<and> n \<noteq> 215) then char_of (n + 32)
         else c)"

definition lower :: "string \<Rightarrow> string" where
  "lower s = map lower_char s"

text \<open>\<^verbatim>\<open>sub in s\<close> on strings: \<open>sub\<close> occurs in \<open>s\<close> as a contiguous block.\<close>

fun py_in :: "string \<Rightarrow> string \<Rightarrow> bool" where
  "py_in sub [] = (sub = [])"
| "py_in sub (c # cs) = (take (length sub) (c # cs) = sub \<or> py_in sub cs)"

section \<open>Dictionaries\<close>

text \<open>
  \<^verbatim>\<open>dict(items)\<close>: the pairs are inserted from left to right; a key met again keeps
  its place and takes the new value.
\<close>

definition py_dict :: "(string \<times> 'v) list \<Rightarrow> (string \<times> 'v) list" where
  "py_dict items = fold (\<lambda>(k, v). AList.update k v) items []"

section \<open>The flattener\<close>

text \<open>
  The inner loop of \<^verbatim>\<open>_flatten_yaml\<close> over \<^verbatim>\<open>enumerate(v, 1)\<close>: an element
  that is a dict contributes one pair per entry, the value taken as it is; any other
  element contributes itself under the indexed key.
\<close>

fun list_items :: "string \<Rightarrow> nat \<Rightarrow> yaml list \<Rightarrow> (string \<times> yaml) list" where
  "list_items new_key i [] = []"
| "list_items new_key i (item # rest) =
     (case item of
        YDict d \<Rightarrow>
          map (\<lambda>(sub_k, sub_v).
                 (new_key @ ''['' @ show_nat i @ ''].'' @ replace_space sub_k, sub_v)) d
      | _ \<Rightarrow> [(new_key @ ''['' @ show_nat i @ '']'', item)])
     @ list_items new_key (Suc i) rest"

text \<open>
  The outer loop of \<^verbatim>\<open>_flatten_yaml\<close>: the list \<^verbatim>\<open>items\<close> it has built when it
  reaches \<^verbatim>\<open>return dict(items)\<close>. The recursive call on a dict value returns a dict,
  whose items are appended.
\<close>

function (sequential) flatten_items ::
  "(string \<times> yaml) list \<Rightarrow> string \<Rightarrow> string \<Rightarrow> (string \<times> yaml) list" where
  "flatten_items [] parent_key sep = []"
| "flatten_items ((k, v) # rest) parent_key sep =
     (let new_key = (if parent_key \<noteq> [] then parent_key @ sep @ replace_space k
                     else replace_space k)
      in (case v of
            YDict d \<Rightarrow> py_dict (flatten_items d new_key sep)
          | YList l \<Rightarrow> list_items new_key 1 l
          | _ \<Rightarrow> [(new_key, v)])
         @ flatten_items rest parent_key sep)"
  by pat_completeness auto
termination
  by (relation "measure (\<lambda>(d, _, _). size_list (size_prod (\<lambda>_. 0) size) d)") auto

definition flatten_yaml ::
  "(string \<times> yaml) list \<Rightarrow> string \<Rightarrow> string \<Rightarrow> (string \<times> yaml) list" where
  "flatten_yaml data parent_key sep = py_dict (flatten_items data parent_key sep)"

section \<open>The host's parameter registry\<close>

text \<open>
  Modelled from the spec: the node base class of the host framework (\<^verbatim>\<open>DataNode\<close>,
  the SlotRegistry of the specification), which is not part of the repository. A node holds
  the names of its parameters in creation order and two dictionaries of values. The
  journal records every creation and removal the host is asked for, in order.
\<close>

datatype event = Created string | Removed string

record node =
  parameters :: "string list"
  parameter_values :: "string \<rightharpoonup> yaml"
  parameter_output_values :: "string \<rightharpoonup> yaml"
  journal :: "event list"

definition does_name_exist :: "'a node_scheme \<Rightarrow> string \<Rightarrow> bool" where
  "does_name_exist self name = (name \<in> set (parameters self))"

definition add_parameter :: "string \<Rightarrow> 'a node_scheme \<Rightarrow> 'a node_scheme" where
  "add_parameter name self =
     self\<lparr>parameters := parameters self @ [name], journal := journal self @ [Created name]\<rparr>"

definition remove_parameter_element :: "string \<Rightarrow> 'a node_scheme \<Rightarrow> 'a node_scheme" where
  "remove_parameter_element name self =
     self\<lparr>parameters := removeAll name (parameters self),
          journal := journal self @ [Removed name]\<rparr>"

definition set_parameter_value :: "string \<Rightarrow> yaml \<Rightarrow> 'a node_scheme \<Rightarrow> 'a node_scheme" where
  "set_parameter_value name v self =
     self\<lparr>parameter_values := (parameter_values self)(name \<mapsto> v)\<rparr>"

text \<open>
  \<^verbatim>\<open>yaml_file\<close> and \<^verbatim>\<open>key_filter\<close> are declared with type str: a value that is
  missing, \<^verbatim>\<open>None\<close> or not a string reads as \<^verbatim>\<open>None\<close>.
\<close>

definition get_parameter_value :: "'a node_scheme \<Rightarrow> string \<Rightarrow> string option" where
  "get_parameter_value self name =
     (case parameter_values self name of Some (YStr s) \<Rightarrow> Some s | _ \<Rightarrow> None)"

definition set_status :: "string \<Rightarrow> 'a node_scheme \<Rightarrow> 'a node_scheme" where
  "set_status msg self =
     self\<lparr>parameter_values := (parameter_values self)(''status_message'' \<mapsto> YStr msg)\<rparr>"

section \<open>Library functions\<close>

text \<open>
  Two library functions stay parameters of the model: the \<^verbatim>\<open>repr\<close> Python gives a
  list or a dict, and \<^verbatim>\<open>yaml.dump(_, default_flow_style=False)\<close>. On scalars
  \<^verbatim>\<open>str\<close> is written out.
\<close>

record pylib =
  container_repr :: "yaml \<Rightarrow> string"
  yaml_dump :: "yaml \<Rightarrow> string"

definition py_str :: "pylib \<Rightarrow> yaml \<Rightarrow> string" where
  "py_str L v =
     (case v of
        YNull \<Rightarrow> ''None''
      | YBool b \<Rightarrow> (if b then ''True'' else ''False'')
      | YInt i \<Rightarrow> show_int i
      | YStr s \<Rightarrow> s
      | _ \<Rightarrow> container_repr L v)"

text \<open>A fixed library, to run the model on concrete documents.\<close>

definition stub_lib :: pylib where
  "stub_lib = \<lparr>container_repr = (\<lambda>v. ''<container>''), yaml_dump = (\<lambda>v. ''<yaml>'')\<rparr>"

text \<open>
  The file system: what \<^verbatim>\<open>open(path)\<close> followed by \<^verbatim>\<open>yaml.safe_load\<close> gives
  for a path, a document or the exception raised.
\<close>

type_synonym files = "string \<Rightarrow> error + yaml"

fun one_file :: "error + yaml \<Rightarrow> files" where
  "one_file content path = content"

section \<open>YAMLLoaderNode\<close>

definition fixed_names :: "string set" where
  "fixed_names = {''yaml_file'', ''yaml_data'', ''status_message'', ''key_filter''}"

text \<open>
  \<^verbatim>\<open>_purge_old_parameters\<close>: every parameter whose name is not in the given set,
  extended by three fixed names, is removed; the removed names are returned.
\<close>

definition purge_old_parameters ::
  "string set \<Rightarrow> 'a node_scheme \<Rightarrow> 'a node_scheme \<times> string set" where
  "purge_old_parameters valid_parameter_names self =
     (let valid = valid_parameter_names \<union> {''yaml_file'', ''yaml_data'', ''status_message''};
          stale = filter (\<lambda>name. name \<notin> valid) (parameters self)
      in (fold remove_parameter_element stale self, set stale))"

text \<open>
  The filter step: \<^verbatim>\<open>if key_filter:\<close> holds for a non-empty string, and the dict
  comprehension keeps the items whose lowered key contains the lowered filter.
\<close>

definition filter_items ::
  "string option \<Rightarrow> (string \<times> yaml) list \<Rightarrow> (string \<times> yaml) list" where
  "filter_items key_filter flattened_items =
     (case key_filter of
        None \<Rightarrow> flattened_items
      | Some f \<Rightarrow>
          (if f \<noteq> [] then filter (\<lambda>(k, v). py_in (lower f) (lower k)) flattened_items
           else flattened_items))"

text \<open>
  The \<^verbatim>\<open>while param_name in used_names\<close> loop: as long as the name is taken, the
  next candidate is the base name with the counter appended. The loop ends because the
  candidates are pairwise different and only finitely many names are taken.
\<close>

function unique_name :: "string fset \<Rightarrow> string \<Rightarrow> string \<Rightarrow> nat \<Rightarrow> string" where
  "unique_name used_names base_name param_name counter =
     (if param_name |\<in>| used_names
      then unique_name used_names base_name (base_name @ ''_'' @ show_nat counter) (counter + 1)
      else param_name)"
  by pat_completeness auto
termination
proof (relation "measure (\<lambda>(used_names, base_name, param_name, counter).
          2 * card {c. counter \<le> c \<and> base_name @ ''_'' @ show_nat c |\<in>| used_names}
          + (if param_name |\<in>| used_names then 1 else 0))", goal_cases)
  case 1
  show ?case by simp
next
  case (2 used_names base_name param_name counter)
  have nonempty: "show_nat n \<noteq> []" for n
    by (subst show_nat.simps) simp
  have digit: "a = b" if "a < 10" "b < 10" "digit_char a = digit_char b" for a b
    using that by (simp add: digit_char_def char_of_eq_iff take_bit_eq_mod)
  have inj: "m = n" if "show_nat m = show_nat n" for m n
    using that
  proof (induction m arbitrary: n rule: show_nat.induct)
    case (1 m)
    have small: "show_nat k = [digit_char k]" if "k < 10" for k
      using that by (subst show_nat.simps) simp
    have large: "show_nat k = show_nat (k div 10) @ [digit_char (k mod 10)]"
      if "\<not> k < 10" for k
      using that by (subst show_nat.simps) simp
    show ?case
    proof (cases "m < 10")
      case True
      have "n < 10"
      proof (rule ccontr)
        assume "\<not> n < 10"
        then show False
          using "1.prems" small[OF True] large[of n] nonempty[of "n div 10"] by simp
      qed
      then show ?thesis
        using "1.prems" True small[of m] small[of n] digit by simp
    next
      case False
      have "\<not> n < 10"
      proof
        assume "n < 10"
        then show False
          using "1.prems" small[of n] large[OF False] nonempty[of "m div 10"] by simp
      qed
      with False "1.prems" large[of m] large[of n]
      have a: "show_nat (m div 10) = show_nat (n div 10)"
        and b: "digit_char (m mod 10) = digit_char (n mod 10)" by simp_all
      from "1.IH"[OF False a] have "m div 10 = n div 10" .
      moreover from b have "m mod 10 = n mod 10" by (intro digit) simp_all
      ultimately show ?thesis by (metis div_mult_mod_eq)
    qed
  qed
  let ?name = "\<lambda>c. base_name @ ''_'' @ show_nat c"
  let ?S = "\<lambda>k. {c. k \<le> c \<and> ?name c |\<in>| used_names}"
  have "inj ?name" by (rule injI) (simp add: inj)
  then have "finite (?name -` fset used_names)" by (intro finite_vimageI) simp_all
  then have fin: "finite (?S counter)" by (rule rev_finite_subset) auto
  have sub: "?S (counter + 1) \<subseteq> ?S counter" by auto
  show ?case
  proof (cases "?name counter |\<in>| used_names")
    case True
    then have "counter \<in> ?S counter" "counter \<notin> ?S (counter + 1)" by simp_all
    then have "?S (counter + 1) \<subset> ?S counter" using sub by blast
    then have "card (?S (counter + 1)) < card (?S counter)"
      using fin by (rule psubset_card_mono[rotated])
    then show ?thesis using 2 True by simp
  next
    case False
    have "card (?S (counter + 1)) \<le> card (?S counter)" using fin sub by (rule card_mono)
    then show ?thesis using 2 False by simp
  qed
qed

declare unique_name.simps [simp del]

text \<open>
  The loop of \<^verbatim>\<open>process\<close> over \<^verbatim>\<open>flattened_items.items()\<close>. It returns the
  set \<^verbatim>\<open>used_names\<close> with the node. (\<^verbatim>\<open>valid_parameter_names\<close> also receives
  each name, and is not read again.)
\<close>

fun update_loop ::
  "pylib \<Rightarrow> (string \<times> yaml) list \<Rightarrow> string fset \<Rightarrow> node \<Rightarrow> string fset \<times> node" where
  "update_loop L [] used_names self = (used_names, self)"
| "update_loop L ((key, v) # rest) used_names self =
     (let base_name = ''output_'' @ key;
          param_name = unique_name used_names base_name base_name 1;
          self1 = (if \<not> does_name_exist self param_name then add_parameter param_name self
                   else self);
          self2 = self1\<lparr>parameter_output_values :=
                    (parameter_output_values self1)(param_name \<mapsto> YStr (py_str L v))\<rparr>
      in update_loop L rest (finsert param_name used_names) self2)"

text \<open>
  \<^verbatim>\<open>YAMLLoaderNode.process\<close>. Inside the \<^verbatim>\<open>try\<close> block only the loading can
  raise; the handler records the message and raises again.
\<close>

definition process :: "pylib \<Rightarrow> files \<Rightarrow> node \<Rightarrow> node result" where
  "process L fs self =
     (let yaml_file = get_parameter_value self ''yaml_file'';
          key_filter = get_parameter_value self ''key_filter''
      in case yaml_file of
           None \<Rightarrow> Returned (set_status ''No YAML file specified'' self)
         | Some path \<Rightarrow>
             (case fs path of
                Inl e \<Rightarrow>
                  Raised e (set_status (''Error loading YAML file: '' @ str_error e) self)
              | Inr (YDict yaml_data) \<Rightarrow>
                  (let flattened_items =
                         filter_items key_filter (flatten_yaml yaml_data [] ''.'');
                       self1 = fst (purge_old_parameters fixed_names self);
                       self2 = snd (update_loop L flattened_items {||} self1);
                       self3 = self2\<lparr>parameter_output_values :=
                                 (parameter_output_values self2)
                                   (''yaml_data'' \<mapsto> YStr (yaml_dump L (YDict flattened_items)))\<rparr>
                   in Returned (set_status ''YAML file loaded successfully'' self3))
              | Inr _ \<Rightarrow>
                  Returned
                    (set_status ''YAML file must contain a dictionary at the root level'' self)))"

text \<open>The node as \<^verbatim>\<open>__init__\<close> leaves it: the four fixed parameters, no values.\<close>

definition init_node :: node where
  "init_node =
     \<lparr>parameters = [''yaml_file'', ''key_filter'', ''yaml_data'', ''status_message''],
      parameter_values = Map.empty,
      parameter_output_values = Map.empty,
      journal = []\<rparr>"

text \<open>The parameters of a node that the loader created: all but the fixed ones.\<close>

definition managed_names :: "'a node_scheme \<Rightarrow> string set" where
  "managed_names self = set (parameters self) - fixed_names"

section \<open>NEW-YAMLLoaderNode\<close>

text \<open>
  The second loader keeps two instance fields. \<^verbatim>\<open>yaml_list\<close> holds a list at first
  and a dict once a mapping has been flattened.
\<close>

record new_node = node +
  yaml_dictionary :: "(string \<times> yaml) list"
  yaml_list :: yaml

definition new_init_node :: new_node where
  "new_init_node =
     \<lparr>parameters = [''yaml_file'', ''key_filter'', ''yaml_data'', ''status_message''],
      parameter_values = Map.empty,
      parameter_output_values = Map.empty,
      journal = [],
      yaml_dictionary = [],
      yaml_list = YList []\<rparr>"

text \<open>
  \<^verbatim>\<open>_load_yaml_file\<close>: the three handlers wrap what the \<^verbatim>\<open>try\<close> block raises,
  the \<^verbatim>\<open>ValueError\<close> for a scalar root included, which the last handler catches.
\<close>

definition load_yaml_file :: "files \<Rightarrow> string \<Rightarrow> error + yaml" where
  "load_yaml_file fs file_path =
     (case fs file_path of
        Inr (YDict d) \<Rightarrow> Inr (YDict d)
      | Inr (YList l) \<Rightarrow> Inr (YList l)
      | Inr _ \<Rightarrow>
          Inl (Exception (''An unexpected error occurred while loading the YAML file: ''
                 @ ''YAML file must contain a dictionary or a list at the root level''))
      | Inl (FileNotFoundError m) \<Rightarrow>
          Inl (FileNotFoundError (''The file '' @ file_path @ '' was not found.''))
      | Inl (YAMLError m) \<Rightarrow> Inl (ValueError (''Error parsing YAML file: '' @ m))
      | Inl e \<Rightarrow>
          Inl (Exception (''An unexpected error occurred while loading the YAML file: ''
                 @ str_error e)))"

text \<open>Iterating a dict gives its keys, iterating a list its elements.\<close>

definition py_iter :: "yaml \<Rightarrow> yaml list" where
  "py_iter c = (case c of YDict d \<Rightarrow> map (\<lambda>(k, v). YStr k) d | YList l \<Rightarrow> l | _ \<Rightarrow> [])"

definition type_name :: "yaml \<Rightarrow> string" where
  "type_name v =
     (case v of YNull \<Rightarrow> ''NoneType'' | YBool b \<Rightarrow> ''bool'' | YInt i \<Rightarrow> ''int''
      | YStr s \<Rightarrow> ''str'' | YList l \<Rightarrow> ''list'' | YDict d \<Rightarrow> ''dict'')"

text \<open>
  \<^verbatim>\<open>xs[i]\<close> on a list: an int (a bool is one) indexes it, from the end when
  negative, and raises \<^verbatim>\<open>IndexError\<close> out of range; anything else raises
  \<^verbatim>\<open>TypeError\<close>.
\<close>

definition list_index :: "yaml list \<Rightarrow> int \<Rightarrow> error + yaml" where
  "list_index xs i =
     (if 0 \<le> i \<and> i < int (length xs) then Inr (xs ! nat i)
      else if i < 0 \<and> - int (length xs) \<le> i then Inr (xs ! nat (int (length xs) + i))
      else Inl (IndexError ''list index out of range''))"

definition list_getitem :: "yaml list \<Rightarrow> yaml \<Rightarrow> error + yaml" where
  "list_getitem xs item =
     (case item of
        YInt i \<Rightarrow> list_index xs i
      | YBool b \<Rightarrow> list_index xs (if b then 1 else 0)
      | _ \<Rightarrow> Inl (TypeError (''list indices must be integers or slices, not ''
                               @ type_name item)))"

text \<open>\<^verbatim>\<open>c[item]\<close> for the two shapes \<^verbatim>\<open>yaml_list\<close> takes.\<close>

definition py_getitem :: "pylib \<Rightarrow> yaml \<Rightarrow> yaml \<Rightarrow> error + yaml" where
  "py_getitem L c item =
     (case c of
        YList xs \<Rightarrow> list_getitem xs item
      | YDict d \<Rightarrow>
          (case item of
             YStr k \<Rightarrow>
               (case map_of d k of Some v \<Rightarrow> Inr v | None \<Rightarrow> Inl (KeyError (py_str L item)))
           | _ \<Rightarrow> Inl (KeyError (py_str L item)))
      | _ \<Rightarrow> Inl (TypeError ([CHR 0x27] @ type_name c @ [CHR 0x27] @ '' object is not subscriptable'')))"

text \<open>
  The loop of \<^verbatim>\<open>after_value_set\<close> over \<^verbatim>\<open>enumerate(self.yaml_list, start=1)\<close>.
  The parameter is created before the value is read, so a failing read leaves it behind.
\<close>

fun slot_loop ::
  "pylib \<Rightarrow> yaml \<Rightarrow> nat \<Rightarrow> yaml list \<Rightarrow> string set \<Rightarrow> new_node
     \<Rightarrow> error \<times> new_node + string set \<times> new_node" where
  "slot_loop L c index [] valid_parameter_names self = Inr (valid_parameter_names, self)"
| "slot_loop L c index (item # rest) valid_parameter_names self =
     (let param_name = show_nat index @ ''_'' @ py_str L item;
          self1 = (if \<not> does_name_exist self param_name then add_parameter param_name self
                   else self)
      in case py_getitem L c item of
           Inl e \<Rightarrow> Inl (e, self1)
         | Inr v \<Rightarrow>
             slot_loop L c (Suc index) rest (insert param_name valid_parameter_names)
               (set_parameter_value param_name v self1))"

text \<open>
  The filter step of \<^verbatim>\<open>after_value_set\<close> calls \<^verbatim>\<open>.items()\<close> on
  \<^verbatim>\<open>yaml_list\<close>, which a list does not have.
\<close>

definition filter_yaml_list :: "string option \<Rightarrow> yaml \<Rightarrow> error + yaml" where
  "filter_yaml_list key_filter c =
     (case key_filter of
        None \<Rightarrow> Inr c
      | Some f \<Rightarrow>
          (if f \<noteq> [] then
             (case c of
                YDict d \<Rightarrow> Inr (YDict (filter (\<lambda>(k, v). py_in (lower f) (lower k)) d))
              | _ \<Rightarrow> Inl (AttributeError ([CHR 0x27] @ type_name c @ [CHR 0x27]
                               @ '' object has no attribute '' @ [CHR 0x27] @ ''items''
                               @ [CHR 0x27])))
           else Inr c))"

text \<open>
  \<^verbatim>\<open>NEW_YAMLLoaderNode.after_value_set\<close>, for the parameter that was set. Nothing
  here catches an exception. (The set \<^verbatim>\<open>modified_parameters_set\<close> that the method
  fills for the host is left out.)
\<close>

definition after_value_set :: "pylib \<Rightarrow> files \<Rightarrow> string \<Rightarrow> new_node \<Rightarrow> new_node result" where
  "after_value_set L fs parameter_name self =
     (if parameter_name \<in> {''yaml_file'', ''key_filter''} then
        (let yaml_file = get_parameter_value self ''yaml_file'';
             key_filter = get_parameter_value self ''key_filter''
         in case yaml_file of
              None \<Rightarrow> Returned (set_status ''No YAML file specified'' self)
            | Some path \<Rightarrow>
                (case load_yaml_file fs path of
                   Inl e \<Rightarrow> Raised e self
                 | Inr yaml_data \<Rightarrow>
                     (let self1 = (case yaml_data of
                                     YDict d \<Rightarrow> self\<lparr>yaml_dictionary := d\<rparr>
                                   | YList l \<Rightarrow> self\<lparr>yaml_list := yaml_data\<rparr>
                                   | _ \<Rightarrow> self);
                          self2 = (if yaml_dictionary self1 \<noteq> []
                                   then self1\<lparr>yaml_list :=
                                          YDict (flatten_yaml (yaml_dictionary self1) [] ''.'')\<rparr>
                                   else self1)
                      in case filter_yaml_list key_filter (yaml_list self2) of
                           Inl e \<Rightarrow> Raised e self2
                         | Inr filtered \<Rightarrow>
                             (let self3 = self2\<lparr>yaml_list := filtered\<rparr>;
                                  self4 = set_parameter_value ''yaml_data''
                                            (YStr (yaml_dump L (yaml_list self3))) self3
                              in case slot_loop L (yaml_list self4) 1 (py_iter (yaml_list self4))
                                        fixed_names self4 of
                                   Inl (e, self5) \<Rightarrow> Raised e self5
                                 | Inr (valid_parameter_names, self5) \<Rightarrow>
                                     Returned (fst (purge_old_parameters valid_parameter_names
                                                      self5))))))
      else Returned self)"

section \<open>Observations and concrete nodes\<close>

fun raised_error :: "'a result \<Rightarrow> error option" where
  "raised_error (Returned s) = None"
| "raised_error (Raised e s) = Some e"

text \<open>The call raised an exception that satisfies \<open>P\<close>.\<close>

fun raises :: "(error \<Rightarrow> bool) \<Rightarrow> 'a result \<Rightarrow> bool" where
  "raises P (Returned s) = False"
| "raises P (Raised e s) = P e"

text \<open>The values Python accepts as a list index: an int, or a bool, which is an int.\<close>

fun is_index :: "yaml \<Rightarrow> bool" where
  "is_index (YInt i) = True"
| "is_index (YBool b) = True"
| "is_index v = False"

fun is_type_error :: "error \<Rightarrow> bool" where
  "is_type_error (TypeError m) = True"
| "is_type_error e = False"

fun is_index_error :: "error \<Rightarrow> bool" where
  "is_index_error (IndexError m) = True"
| "is_index_error e = False"

fun is_attribute_error :: "error \<Rightarrow> bool" where
  "is_attribute_error (AttributeError m) = True"
| "is_attribute_error e = False"

text \<open>
  Following the words of the specification, "contains the filter as a case-insensitive
  substring": a capital letter is a code point with a lower-case form; two characters are
  the same letter when they are equal or one is the capital of the other; and a key
  contains a filter, case ignored, when a contiguous block of the key agrees with the
  filter letter by letter.
\<close>

definition capital :: "char \<Rightarrow> bool" where
  "capital c =
     (let n = (of_char c :: nat)
      in (65 \<le> n \<and> n \<le> 90) \<or> (192 \<le> n \<and> n \<le> 214) \<or> (216 \<le> n \<and> n \<le> 222))"

definition same_letter :: "char \<Rightarrow> char \<Rightarrow> bool" where
  "same_letter a b =
     (a = b \<or> (capital a \<and> (of_char b :: nat) = of_char a + 32)
            \<or> (capital b \<and> (of_char a :: nat) = of_char b + 32))"

definition contains_ignoring_case :: "string \<Rightarrow> string \<Rightarrow> bool" where
  "contains_ignoring_case key f =
     (\<exists>before block after. key = before @ block @ after \<and> list_all2 same_letter f block)"

text \<open>The name \<^verbatim>\<open>process\<close> gives the parameter of a flattened key.\<close>

definition output_name :: "string \<times> yaml \<Rightarrow> string" where
  "output_name item = ''output_'' @ fst item"

text \<open>A fresh node after the host has stored a file path, for each of the two classes.\<close>

definition file_node :: node where
  "file_node = init_node\<lparr>parameter_values := [''yaml_file'' \<mapsto> YStr ''config.yaml'']\<rparr>"

definition new_file_node :: new_node where
  "new_file_node = new_init_node\<lparr>parameter_values := [''yaml_file'' \<mapsto> YStr ''config.yaml'']\<rparr>"

section \<open>Evaluation and dictionary lemmas\<close>

lemmas eval_simps =
  flatten_yaml_def py_dict_def replace_space_def show_nat.simps digit_char_def char_of_def
  bit_Suc_0_iff

lemma fold_update_distinct:
  "distinct (map fst acc) \<Longrightarrow> distinct (map fst (fold (\<lambda>(k, v). AList.update k v) xs acc))"
  by (induction xs arbitrary: acc) (auto simp: distinct_update)

lemma fold_update_map_of:
  "map_of (fold (\<lambda>(k, v). AList.update k v) xs acc) = map_of acc ++ map_of (rev xs)"
proof (induction xs arbitrary: acc)
  case Nil
  show ?case by simp
next
  case (Cons x xs)
  obtain k v where x: "x = (k, v)" by (cases x)
  have "map_of (fold (\<lambda>(k, v). AList.update k v) (x # xs) acc)
        = map_of (AList.update k v acc) ++ map_of (rev xs)"
    using Cons.IH[of "AList.update k v acc"] x by simp
  also have "\<dots> = (map_of acc)(k \<mapsto> v) ++ map_of (rev xs)"
    by (simp add: update_conv')
  also have "\<dots> = map_of acc ++ map_of (rev (x # xs))"
    by (simp add: x map_add_upd_left)
  finally show ?case .
qed

lemma py_dict_distinct: "distinct (map fst (py_dict xs))"
  unfolding py_dict_def by (rule fold_update_distinct) simp

lemma py_dict_map_of: "map_of (py_dict xs) = map_of (rev xs)"
  unfolding py_dict_def by (simp add: fold_update_map_of)

lemma py_dict_keys: "fst ` set (py_dict xs) = fst ` set xs"
proof -
  have "dom (map_of (py_dict xs)) = dom (map_of (rev xs))" by (simp add: py_dict_map_of)
  then show ?thesis by (simp add: dom_map_of_conv_image_fst)
qed

lemma flatten_yaml_distinct: "distinct (map fst (flatten_yaml data parent_key sep))"
  by (simp add: flatten_yaml_def py_dict_distinct)

section \<open>The flattener returns a dict\<close>

text \<open>
  Claim C1, as the code has it. \<^verbatim>\<open>_flatten_yaml\<close> ends in \<^verbatim>\<open>return dict(items)\<close>:
  no two entries of its result share a key, and under each key the result holds the value
  of the last collected item with that key.
\<close>

theorem flatten_yaml_is_dict:
  "distinct (map fst (flatten_yaml data parent_key sep)) \<and>
   map_of (flatten_yaml data parent_key sep) = map_of (rev (flatten_items data parent_key sep))"
  by (simp add: flatten_yaml_def py_dict_distinct py_dict_map_of)

text \<open>
  Claim C1 as stated fails: the keys \<^verbatim>\<open>"a b"\<close> and \<^verbatim>\<open>"a_b"\<close> of one mapping both
  become \<^verbatim>\<open>"a_b"\<close>; two items are collected and the result has one entry.
\<close>

theorem flatten_yaml_duplicate_counterexample:
  "flatten_items [(''a b'', YInt 1), (''a_b'', YInt 2)] [] ''.''
     = [(''a_b'', YInt 1), (''a_b'', YInt 2)] \<and>
   flatten_yaml [(''a b'', YInt 1), (''a_b'', YInt 2)] [] ''.'' = [(''a_b'', YInt 2)]"
  by (simp add: eval_simps)

section \<open>Mappings inside a sequence\<close>

lemma list_items_dict_element:
  "n < length l \<Longrightarrow> l ! n = YDict d \<Longrightarrow> (sub_k, sub_v) \<in> set d \<Longrightarrow>
   (new_key @ ''['' @ show_nat (i + n) @ ''].'' @ replace_space sub_k, sub_v)
     \<in> set (list_items new_key i l)"
proof (induction l arbitrary: i n)
  case Nil
  then show ?case by simp
next
  case (Cons item rest)
  show ?case
  proof (cases n)
    case 0
    with Cons.prems show ?thesis by (auto intro!: image_eqI[where x="(sub_k, sub_v)"])
  next
    case (Suc m)
    with Cons.prems have "m < length rest" "rest ! m = YDict d" by simp_all
    from Cons.IH[OF this Cons.prems(3), of "Suc i"] Suc show ?thesis by simp
  qed
qed

lemma flatten_items_list_value:
  "(k, YList l) \<in> set data \<Longrightarrow>
   set (list_items (if parent_key \<noteq> [] then parent_key @ sep @ replace_space k
                    else replace_space k) 1 l)
     \<subseteq> set (flatten_items data parent_key sep)"
proof (induction data parent_key sep rule: flatten_items.induct)
  case (1 parent_key sep)
  then show ?case by simp
next
  case (2 k' v rest parent_key sep)
  show ?case
  proof (cases "(k, YList l) = (k', v)")
    case True
    then show ?thesis by (auto simp: Let_def)
  next
    case False
    with "2.prems" have "(k, YList l) \<in> set rest" by auto
    from "2.IH"(2)[OF refl this] show ?thesis by (auto simp: Let_def)
  qed
qed

lemma map_of_rev_last:
  "K \<in> fst ` set xs \<Longrightarrow>
   map_of (rev xs) K = Some (last (map snd (filter (\<lambda>item. fst item = K) xs)))"
proof (induction xs rule: rev_induct)
  case Nil
  then show ?case by simp
next
  case (snoc x xs)
  show ?case
  proof (cases "fst x = K")
    case True
    then show ?thesis by (cases x) simp
  next
    case False
    with snoc.prems have "K \<in> fst ` set xs" by auto
    from snoc.IH[OF this] False show ?thesis by (cases x) simp
  qed
qed

lemma flatten_yaml_last:
  "K \<in> fst ` set (flatten_items data parent_key sep) \<Longrightarrow>
   map_of (flatten_yaml data parent_key sep) K
     = Some (last (map snd (filter (\<lambda>item. fst item = K)
                              (flatten_items data parent_key sep))))"
  by (simp add: flatten_yaml_def py_dict_map_of map_of_rev_last)

lemma list_items_other_element:
  "n < length l \<Longrightarrow> l ! n \<notin> range YDict \<Longrightarrow>
   (new_key @ ''['' @ show_nat (i + n) @ '']'', l ! n) \<in> set (list_items new_key i l)"
proof (induction l arbitrary: i n)
  case Nil
  then show ?case by simp
next
  case (Cons item rest)
  show ?case
  proof (cases n)
    case 0
    with Cons.prems show ?thesis by (cases item) auto
  next
    case (Suc m)
    with Cons.prems have "m < length rest" "rest ! m \<notin> range YDict" by simp_all
    from Cons.IH[OF this, of "Suc i"] Suc show ?thesis by simp
  qed
qed

lemma collected_value:
  assumes "(K, v) \<in> set (flatten_items data parent_key sep)"
  shows "map_of (flatten_yaml data parent_key sep) K
           = Some (last (map snd (filter (\<lambda>item. fst item = K)
                                    (flatten_items data parent_key sep))))"
    and "(\<forall>w. (K, w) \<in> set (flatten_items data parent_key sep) \<longrightarrow> w = v) \<longrightarrow>
         map_of (flatten_yaml data parent_key sep) K = Some v"
proof -
  let ?items = "flatten_items data parent_key sep"
  let ?same = "filter (\<lambda>item. fst item = K) ?items"
  from assms have k: "K \<in> fst ` set ?items" by (rule image_eqI[rotated]) simp
  show l: "map_of (flatten_yaml data parent_key sep) K = Some (last (map snd ?same))"
    by (rule flatten_yaml_last[OF k])
  show "(\<forall>w. (K, w) \<in> set ?items \<longrightarrow> w = v) \<longrightarrow>
         map_of (flatten_yaml data parent_key sep) K = Some v"
  proof
    assume u: "\<forall>w. (K, w) \<in> set ?items \<longrightarrow> w = v"
    from assms have ne: "?same \<noteq> []" by (force simp: filter_empty_conv)
    then have "last ?same \<in> set ?same" by (rule last_in_set)
    then have "fst (last ?same) = K" "last ?same \<in> set ?items" by auto
    then have "(K, snd (last ?same)) \<in> set ?items" by (metis prod.collapse)
    with u have "snd (last ?same) = v" by blast
    moreover have "last (map snd ?same) = snd (last ?same)" using ne by (rule last_map)
    ultimately show "map_of (flatten_yaml data parent_key sep) K = Some v" using l by simp
  qed
qed

text \<open>
  Claim C2, as the code has it. Take any call of \<^verbatim>\<open>_flatten_yaml\<close> and a sequence
  \<open>l\<close> that is the value of a key \<open>k\<close> of its \<^verbatim>\<open>data\<close>: these are the only
  sequences the function iterates. Let \<open>new_key\<close> be the key the call builds for \<open>k\<close>.
  For the element at 1-based position \<open>n + 1\<close>:
  \<^item> if it is a mapping, each entry \<open>(sub_k, sub_v)\<close> of it is collected under the key
    \<^verbatim>\<open>{new_key}[{n+1}].{sub_k}\<close> (spaces of \<open>sub_k\<close> replaced) with the value
    \<open>sub_v\<close> exactly as it stands: there is no recursive call on \<open>sub_v\<close>;
  \<^item> if it is not a mapping (a scalar, or a sequence), the element itself is collected
    under \<^verbatim>\<open>{new_key}[{n+1}]\<close>.

  In both cases the returned dict holds, under that key, the value of the last collected
  item with that key; so it holds the collected value itself whenever no other collected
  item has the key with another value.
\<close>

theorem flatten_sequence_element:
  assumes "(k, YList l) \<in> set data" and "n < length l"
  shows "let new_key = (if parent_key \<noteq> [] then parent_key @ sep @ replace_space k
                        else replace_space k);
             collected = flatten_items data parent_key sep;
             returned = flatten_yaml data parent_key sep;
             last_value = (\<lambda>K. last (map snd (filter (\<lambda>item. fst item = K) collected)))
         in (l ! n = YDict d \<and> (sub_k, sub_v) \<in> set d \<longrightarrow>
               (let K = new_key @ ''['' @ show_nat (Suc n) @ ''].'' @ replace_space sub_k
                in (K, sub_v) \<in> set collected \<and>
                   map_of returned K = Some (last_value K) \<and>
                   ((\<forall>w. (K, w) \<in> set collected \<longrightarrow> w = sub_v) \<longrightarrow>
                      map_of returned K = Some sub_v))) \<and>
            (l ! n \<notin> range YDict \<longrightarrow>
               (let K = new_key @ ''['' @ show_nat (Suc n) @ '']''
                in (K, l ! n) \<in> set collected \<and>
                   map_of returned K = Some (last_value K) \<and>
                   ((\<forall>w. (K, w) \<in> set collected \<longrightarrow> w = l ! n) \<longrightarrow>
                      map_of returned K = Some (l ! n))))"
proof -
  let ?new_key = "if parent_key \<noteq> [] then parent_key @ sep @ replace_space k
                  else replace_space k"
  note sub = flatten_items_list_value[OF assms(1), of parent_key sep]
  have a: "(?new_key @ ''['' @ show_nat (Suc n) @ ''].'' @ replace_space sub_k, sub_v)
             \<in> set (flatten_items data parent_key sep)"
    if "l ! n = YDict d" "(sub_k, sub_v) \<in> set d"
  proof -
    have "(?new_key @ ''['' @ show_nat (1 + n) @ ''].'' @ replace_space sub_k, sub_v)
            \<in> set (list_items ?new_key 1 l)"
      by (rule list_items_dict_element[OF assms(2) that])
    then show ?thesis using sub by auto
  qed
  have b: "(?new_key @ ''['' @ show_nat (Suc n) @ '']'', l ! n)
             \<in> set (flatten_items data parent_key sep)"
    if "l ! n \<notin> range YDict"
  proof -
    have "(?new_key @ ''['' @ show_nat (1 + n) @ '']'', l ! n)
            \<in> set (list_items ?new_key 1 l)"
      by (rule list_items_other_element[OF assms(2) that])
    then show ?thesis using sub by auto
  qed
  show ?thesis
    unfolding Let_def
  proof (intro conjI impI)
    assume h: "l ! n = YDict d \<and> (sub_k, sub_v) \<in> set d"
    then have c: "(?new_key @ ''['' @ show_nat (Suc n) @ ''].'' @ replace_space sub_k, sub_v)
             \<in> set (flatten_items data parent_key sep)" using a by blast
    show "(?new_key @ ''['' @ show_nat (Suc n) @ ''].'' @ replace_space sub_k, sub_v)
             \<in> set (flatten_items data parent_key sep)" by (rule c)
    show "map_of (flatten_yaml data parent_key sep)
            (?new_key @ ''['' @ show_nat (Suc n) @ ''].'' @ replace_space sub_k)
          = Some (last (map snd (filter
               (\<lambda>item. fst item = ?new_key @ ''['' @ show_nat (Suc n) @ ''].'' @ replace_space sub_k)
               (flatten_items data parent_key sep))))"
      by (rule collected_value(1)[OF c])
    assume "\<forall>w. (?new_key @ ''['' @ show_nat (Suc n) @ ''].'' @ replace_space sub_k, w)
               \<in> set (flatten_items data parent_key sep) \<longrightarrow> w = sub_v"
    then show "map_of (flatten_yaml data parent_key sep)
            (?new_key @ ''['' @ show_nat (Suc n) @ ''].'' @ replace_space sub_k) = Some sub_v"
      using collected_value(2)[OF c] by blast
  next
    assume h: "l ! n \<notin> range YDict"
    then have c: "(?new_key @ ''['' @ show_nat (Suc n) @ '']'', l ! n)
             \<in> set (flatten_items data parent_key sep)" using b by blast
    show "(?new_key @ ''['' @ show_nat (Suc n) @ '']'', l ! n)
             \<in> set (flatten_items data parent_key sep)" by (rule c)
    show "map_of (flatten_yaml data parent_key sep) (?new_key @ ''['' @ show_nat (Suc n) @ '']'')
          = Some (last (map snd (filter
               (\<lambda>item. fst item = ?new_key @ ''['' @ show_nat (Suc n) @ '']'')
               (flatten_items data parent_key sep))))"
      by (rule collected_value(1)[OF c])
    assume "\<forall>w. (?new_key @ ''['' @ show_nat (Suc n) @ '']'', w)
               \<in> set (flatten_items data parent_key sep) \<longrightarrow> w = l ! n"
    then show "map_of (flatten_yaml data parent_key sep)
            (?new_key @ ''['' @ show_nat (Suc n) @ '']'') = Some (l ! n)"
      using collected_value(2)[OF c] by blast
  qed
qed

theorem flatten_sequence_element_witness:
  "map_of (flatten_yaml [(''l'', YList [YDict [(''x'', YDict [(''y'', YInt 1)])], YList [YInt 7]])]
             [] ''.'') ''l[1].x'' = Some (YDict [(''y'', YInt 1)]) \<and>
   map_of (flatten_yaml [(''l'', YList [YDict [(''x'', YDict [(''y'', YInt 1)])], YList [YInt 7]])]
             [] ''.'') ''l[2]'' = Some (YList [YInt 7])"
proof -
  let ?l = "[YDict [(''x'', YDict [(''y'', YInt 1)])], YList [YInt 7]]"
  let ?data = "[(''l'', YList ?l)]"
  have m: "(''l'', YList ?l) \<in> set ?data" by simp
  have n0: "0 < length ?l" and n1: "1 < length ?l" by simp_all
  note mapping = flatten_sequence_element[where k = "''l''" and l = ?l and data = ?data
      and n = 0 and d = "[(''x'', YDict [(''y'', YInt 1)])]" and sub_k = "''x''"
      and sub_v = "YDict [(''y'', YInt 1)]" and parent_key = "[]" and sep = "''.''", OF m n0]
  note sequence = flatten_sequence_element[where k = "''l''" and l = ?l and data = ?data
      and n = 1 and d = "[]" and sub_k = "[]" and sub_v = YNull
      and parent_key = "[]" and sep = "''.''", OF m n1]
  have a: "map_of (flatten_yaml ?data [] ''.'') ''l[1].x'' = Some (YDict [(''y'', YInt 1)])"
    using mapping by (simp add: eval_simps)
  have b: "map_of (flatten_yaml ?data [] ''.'') ''l[2]'' = Some (YList [YInt 7])"
    using sequence by (simp add: eval_simps)
  from a b show ?thesis by (intro conjI)
qed

text \<open>
  Claim C2 as stated fails: a mapping below a mapping that is a sequence element is not
  flattened, so the value of the emitted entry is a mapping, not a scalar.
\<close>

theorem flatten_yaml_nested_counterexample:
  "flatten_yaml [(''l'', YList [YDict [(''x'', YDict [(''y'', YInt 1)])]])] [] ''.''
     = [(''l[1].x'', YDict [(''y'', YInt 1)])]"
  by (simp add: eval_simps)

section \<open>Key normalisation\<close>

text \<open>
  Claim C7 at a key that holds a tab: \<^verbatim>\<open>replace(' ', '_')\<close> touches the space
  character only, so the tab stays in the flattened key.
\<close>

theorem flatten_yaml_tab_key:
  "flatten_yaml [(''my'' @ [CHR 0x09] @ ''key'', YInt 5)] [] ''.''
     = [(''my'' @ [CHR 0x09] @ ''key'', YInt 5)]"
  by (simp add: eval_simps)

section \<open>Purging and naming\<close>

lemma filter_removeAll:
  "filter (\<lambda>n. n \<notin> S) (removeAll a xs) = filter (\<lambda>n. n \<notin> insert a S) xs"
  by (induction xs) auto

lemma fold_remove_parameters:
  "parameters (fold remove_parameter_element stale self)
     = filter (\<lambda>n. n \<notin> set stale) (parameters self)"
proof (induction stale arbitrary: self)
  case Nil
  show ?case by simp
next
  case (Cons a stale)
  have "parameters (fold remove_parameter_element (a # stale) self)
        = parameters (fold remove_parameter_element stale (remove_parameter_element a self))"
    by simp
  also have "\<dots> = filter (\<lambda>n. n \<notin> set stale)
                      (parameters (remove_parameter_element a self))"
    by (rule Cons.IH)
  also have "\<dots> = filter (\<lambda>n. n \<notin> set stale) (removeAll a (parameters self))"
    by (simp add: remove_parameter_element_def)
  also have "\<dots> = filter (\<lambda>n. n \<notin> set (a # stale)) (parameters self)"
    by (simp add: filter_removeAll)
  finally show ?case .
qed

lemma remove_parameter_element_fields:
  "parameter_values (remove_parameter_element a self) = parameter_values self"
  "parameter_output_values (remove_parameter_element a self) = parameter_output_values self"
  "journal (remove_parameter_element a self) = journal self @ [Removed a]"
  "node.more (remove_parameter_element a self) = node.more self"
  by (simp_all add: remove_parameter_element_def)

lemma fold_remove_values:
  "parameter_values (fold remove_parameter_element stale self) = parameter_values self"
  "parameter_output_values (fold remove_parameter_element stale self)
     = parameter_output_values self"
  "journal (fold remove_parameter_element stale self) = journal self @ map Removed stale"
  "node.more (fold remove_parameter_element stale self) = node.more self"
  by (induction stale arbitrary: self) (simp_all add: remove_parameter_element_fields)

lemma purge_parameters:
  "parameters (fst (purge_old_parameters valid self))
     = filter (\<lambda>n. n \<in> valid \<union> {''yaml_file'', ''yaml_data'', ''status_message''})
         (parameters self)"
  by (simp add: purge_old_parameters_def Let_def fold_remove_parameters)
    (rule filter_cong, auto)

lemma purge_values:
  "parameter_values (fst (purge_old_parameters valid self)) = parameter_values self"
  "parameter_output_values (fst (purge_old_parameters valid self))
     = parameter_output_values self"
  "node.more (fst (purge_old_parameters valid self)) = node.more self"
  by (simp_all add: purge_old_parameters_def Let_def fold_remove_values)

lemma purge_journal:
  "journal (fst (purge_old_parameters valid self))
     = journal self @ map Removed
         (filter (\<lambda>n. n \<notin> valid \<union> {''yaml_file'', ''yaml_data'', ''status_message''})
            (parameters self))"
  by (simp add: purge_old_parameters_def Let_def fold_remove_values)

lemma purge_fixed_parameters:
  "parameters (fst (purge_old_parameters fixed_names self))
     = filter (\<lambda>n. n \<in> fixed_names) (parameters self)"
  by (simp add: purge_parameters fixed_names_def) (rule filter_cong, auto)

lemma unique_name_free: "base |\<notin>| used \<Longrightarrow> unique_name used base base c = base"
  by (simp add: unique_name.simps)

lemma output_name_not_fixed: "output_name item \<notin> fixed_names"
  by (simp add: output_name_def fixed_names_def)

lemma update_loop_step:
  "output_name (key, v) |\<notin>| used \<Longrightarrow>
   update_loop L ((key, v) # rest) used self =
     update_loop L rest (finsert (output_name (key, v)) used)
       ((if output_name (key, v) \<in> set (parameters self) then self
         else add_parameter (output_name (key, v)) self)
        \<lparr>parameter_output_values :=
           (parameter_output_values self)(output_name (key, v) \<mapsto> YStr (py_str L v))\<rparr>)"
  by (simp add: output_name_def unique_name_free does_name_exist_def add_parameter_def Let_def)

lemma filter_notin_insert:
  "a \<notin> set xs \<Longrightarrow> filter (\<lambda>n. n \<notin> insert a S) xs = filter (\<lambda>n. n \<notin> S) xs"
  by (induction xs) auto

lemma update_loop_distinct:
  "distinct (map fst items) \<Longrightarrow> (\<And>item. item \<in> set items \<Longrightarrow> output_name item |\<notin>| used) \<Longrightarrow>
   update_loop L items used self =
     (used |\<union>| fset_of_list (map output_name items),
      self\<lparr>parameters := parameters self
               @ filter (\<lambda>n. n \<notin> set (parameters self)) (map output_name items),
           journal := journal self
               @ map Created (filter (\<lambda>n. n \<notin> set (parameters self)) (map output_name items)),
           parameter_output_values := parameter_output_values self
               ++ map_of (map (\<lambda>item. (output_name item, YStr (py_str L (snd item))))
                            (rev items))\<rparr>)"
proof (induction items arbitrary: used self)
  case Nil
  show ?case by simp
next
  case (Cons item rest)
  obtain key v where item: "item = (key, v)" by (cases item)
  let ?name = "output_name (key, v)"
  let ?next = "(if ?name \<in> set (parameters self) then self else add_parameter ?name self)
        \<lparr>parameter_output_values := (parameter_output_values self)(?name \<mapsto> YStr (py_str L v))\<rparr>"
  have free: "?name |\<notin>| used" using Cons.prems(2)[of item] item by simp
  have d': "distinct (map fst rest)" using Cons.prems(1) by simp
  have notin: "?name \<notin> set (map output_name rest)"
    using Cons.prems(1) item by (auto simp: output_name_def)
  have u': "output_name i |\<notin>| finsert ?name used" if "i \<in> set rest" for i
  proof -
    from that have "output_name i \<in> set (map output_name rest)" by simp
    with notin have "output_name i \<noteq> ?name" by metis
    moreover from that have "output_name i |\<notin>| used" by (simp add: Cons.prems(2))
    ultimately show ?thesis by simp
  qed
  have "update_loop L (item # rest) used self = update_loop L rest (finsert ?name used) ?next"
    unfolding item by (rule update_loop_step[OF free])
  also have "update_loop L rest (finsert ?name used) ?next =
     (finsert ?name used |\<union>| fset_of_list (map output_name rest),
      ?next\<lparr>parameters := parameters ?next
               @ filter (\<lambda>n. n \<notin> set (parameters ?next)) (map output_name rest),
           journal := journal ?next
               @ map Created (filter (\<lambda>n. n \<notin> set (parameters ?next)) (map output_name rest)),
           parameter_output_values := parameter_output_values ?next
               ++ map_of (map (\<lambda>item. (output_name item, YStr (py_str L (snd item))))
                            (rev rest))\<rparr>)"
    by (rule Cons.IH[OF d' u'])
  finally have eq: "update_loop L (item # rest) used self =
     (finsert ?name used |\<union>| fset_of_list (map output_name rest),
      ?next\<lparr>parameters := parameters ?next
               @ filter (\<lambda>n. n \<notin> set (parameters ?next)) (map output_name rest),
           journal := journal ?next
               @ map Created (filter (\<lambda>n. n \<notin> set (parameters ?next)) (map output_name rest)),
           parameter_output_values := parameter_output_values ?next
               ++ map_of (map (\<lambda>item. (output_name item, YStr (py_str L (snd item))))
                            (rev rest))\<rparr>)" .
  show ?case
  proof (cases "?name \<in> set (parameters self)")
    case True
    then show ?thesis
      unfolding eq by (simp add: item map_add_upd_left)
  next
    case False
    then show ?thesis
      unfolding eq using notin filter_notin_insert[OF notin, of "set (parameters self)"]
      by (simp add: item map_add_upd_left add_parameter_def)
  qed
qed

lemma filter_items_distinct:
  "distinct (map fst items) \<Longrightarrow> distinct (map fst (filter_items key_filter items))"
  by (auto simp: filter_items_def distinct_map_filter split: option.splits)

lemma filter_managed_names:
  "filter (\<lambda>n. n \<in> set ps \<longrightarrow> n \<notin> fixed_names) (map output_name items)
     = map output_name items"
  by (rule filter_True) (auto simp: output_name_not_fixed)

lemma process_success:
  assumes "get_parameter_value self ''yaml_file'' = Some path"
    and "fs path = Inr (YDict yaml_data)"
  defines "items \<equiv> filter_items (get_parameter_value self ''key_filter'')
                      (flatten_yaml yaml_data [] ''.'')"
  shows "process L fs self = Returned
     (self\<lparr>parameters := filter (\<lambda>n. n \<in> fixed_names) (parameters self)
                           @ map output_name items,
           journal := journal self
                      @ map Removed (filter (\<lambda>n. n \<notin> fixed_names) (parameters self))
                      @ map Created (map output_name items),
           parameter_output_values :=
             (parameter_output_values self
                ++ map_of (map (\<lambda>item. (output_name item, YStr (py_str L (snd item))))
                             (rev items)))
             (''yaml_data'' \<mapsto> YStr (yaml_dump L (YDict items))),
           parameter_values :=
             (parameter_values self)
             (''status_message'' \<mapsto> YStr ''YAML file loaded successfully'')\<rparr>)"
proof -
  let ?purged = "self\<lparr>parameters := filter (\<lambda>n. n \<in> fixed_names) (parameters self),
      journal := journal self @ map Removed (filter (\<lambda>n. n \<notin> fixed_names) (parameters self))\<rparr>"
  have d: "distinct (map fst items)"
    unfolding items_def by (rule filter_items_distinct) (rule flatten_yaml_distinct)
  have purged: "fst (purge_old_parameters fixed_names self) = ?purged"
    using purge_fixed_parameters[of self] purge_values[of fixed_names self]
      purge_journal[of fixed_names self]
    by (intro node.equality) (simp_all add: fixed_names_def insert_commute)
  have "update_loop L items {||} ?purged =
     ({||} |\<union>| fset_of_list (map output_name items),
      ?purged\<lparr>parameters := parameters ?purged
               @ filter (\<lambda>n. n \<notin> set (parameters ?purged)) (map output_name items),
           journal := journal ?purged
               @ map Created (filter (\<lambda>n. n \<notin> set (parameters ?purged)) (map output_name items)),
           parameter_output_values := parameter_output_values ?purged
               ++ map_of (map (\<lambda>item. (output_name item, YStr (py_str L (snd item))))
                            (rev items))\<rparr>)"
    by (rule update_loop_distinct[OF d]) simp
  then have loop: "snd (update_loop L items {||} ?purged) =
      self\<lparr>parameters := filter (\<lambda>n. n \<in> fixed_names) (parameters self)
                           @ map output_name items,
           journal := journal self
                      @ map Removed (filter (\<lambda>n. n \<notin> fixed_names) (parameters self))
                      @ map Created (map output_name items),
           parameter_output_values := parameter_output_values self
               ++ map_of (map (\<lambda>item. (output_name item, YStr (py_str L (snd item))))
                            (rev items))\<rparr>"
    by (simp add: filter_managed_names)
  have "process L fs self = Returned (set_status ''YAML file loaded successfully''
          ((snd (update_loop L items {||} ?purged))\<lparr>parameter_output_values :=
              (parameter_output_values (snd (update_loop L items {||} ?purged)))
                (''yaml_data'' \<mapsto> YStr (yaml_dump L (YDict items)))\<rparr>))"
    using assms(1,2) by (simp add: process_def Let_def items_def[symmetric] purged)
  then show ?thesis
    unfolding loop by (simp add: set_status_def)
qed

lemma process_parameters:
  assumes "get_parameter_value self ''yaml_file'' = Some path"
    and "fs path = Inr (YDict yaml_data)"
  shows "parameters (state_of (process L fs self))
           = filter (\<lambda>n. n \<in> fixed_names) (parameters self)
             @ map output_name (filter_items (get_parameter_value self ''key_filter'')
                                  (flatten_yaml yaml_data [] ''.''))"
  by (simp add: process_success[where L = L and fs = fs, OF assms(1) assms(2)])

lemma process_managed:
  assumes "get_parameter_value self ''yaml_file'' = Some path"
    and "fs path = Inr (YDict yaml_data)"
  shows "managed_names (state_of (process L fs self))
           = output_name ` set (filter_items (get_parameter_value self ''key_filter'')
                                  (flatten_yaml yaml_data [] ''.''))"
  unfolding managed_names_def process_parameters[where L = L and fs = fs, OF assms(1) assms(2)]
  using output_name_not_fixed by auto

lemmas node_simps =
  process_def get_parameter_value_def set_status_def purge_old_parameters_def
  remove_parameter_element_def add_parameter_def does_name_exist_def filter_items_def
  init_node_def file_node_def fixed_names_def unique_name.simps output_name_def
  managed_names_def py_str_def show_int_def Let_def

section \<open>Managed parameters after a pass\<close>

text \<open>
  Claim C6. When \<^verbatim>\<open>process\<close> loads a mapping it returns normally, and afterwards the
  parameters other than the fixed ones are exactly the names in \<^verbatim>\<open>used_names\<close> at
  the end of the loop, which are the names \<^verbatim>\<open>output_<key>\<close> of the retained
  flattened entries. The fixed parameters that existed before the pass exist after the
  purge and after the pass, and no other fixed name appears.
\<close>

theorem process_managed_names:
  assumes "get_parameter_value self ''yaml_file'' = Some path"
    and "fs path = Inr (YDict yaml_data)"
  shows "\<not> is_raised (process L fs self) \<and>
     managed_names (state_of (process L fs self))
       = fset (fst (update_loop L
            (filter_items (get_parameter_value self ''key_filter'')
               (flatten_yaml yaml_data [] ''.''))
            {||} (fst (purge_old_parameters fixed_names self)))) \<and>
     managed_names (state_of (process L fs self))
       = output_name ` set (filter_items (get_parameter_value self ''key_filter'')
                              (flatten_yaml yaml_data [] ''.'')) \<and>
     set (parameters (state_of (process L fs self))) \<inter> fixed_names
       = set (parameters self) \<inter> fixed_names \<and>
     set (parameters (fst (purge_old_parameters fixed_names self))) \<inter> fixed_names
       = set (parameters self) \<inter> fixed_names"
proof -
  let ?items = "filter_items (get_parameter_value self ''key_filter'')
                  (flatten_yaml yaml_data [] ''.'')"
  have d: "distinct (map fst ?items)"
    by (rule filter_items_distinct) (rule flatten_yaml_distinct)
  have used: "fst (update_loop L ?items {||} (fst (purge_old_parameters fixed_names self)))
        = fset_of_list (map output_name ?items)"
    by (subst update_loop_distinct[OF d]) simp_all
  note ok = process_success[where L = L and fs = fs, OF assms(1) assms(2)]
  note p = process_parameters[where L = L and fs = fs, OF assms(1) assms(2)]
  note m = process_managed[where L = L and fs = fs, OF assms(1) assms(2)]
  have u: "fset (fst (update_loop L ?items {||} (fst (purge_old_parameters fixed_names self))))
             = output_name ` set ?items"
    by (simp add: used fset_of_list.rep_eq)
  have f: "set (parameters (state_of (process L fs self))) \<inter> fixed_names
             = set (parameters self) \<inter> fixed_names"
    unfolding p using output_name_not_fixed by auto
  have g: "set (parameters (fst (purge_old_parameters fixed_names self))) \<inter> fixed_names
             = set (parameters self) \<inter> fixed_names"
    by (auto simp: purge_fixed_parameters)
  have r: "\<not> is_raised (process L fs self)" by (simp add: ok)
  from r m u f g show ?thesis by simp
qed

theorem process_managed_names_witness:
  "get_parameter_value file_node ''yaml_file'' = Some ''config.yaml'' \<and>
   \<not> is_raised (process stub_lib (one_file (Inr (YDict [(''a'', YInt 1), (''b'', YInt 2)])))
                   file_node) \<and>
   managed_names (state_of (process stub_lib
        (one_file (Inr (YDict [(''a'', YInt 1), (''b'', YInt 2)]))) file_node))
     = {''output_a'', ''output_b''} \<and>
   set (parameters (state_of (process stub_lib
        (one_file (Inr (YDict [(''a'', YInt 1), (''b'', YInt 2)]))) file_node))) \<inter> fixed_names
     = fixed_names"
  using process_managed_names[where self = file_node and path = "''config.yaml''"
      and fs = "one_file (Inr (YDict [(''a'', YInt 1), (''b'', YInt 2)]))"
      and yaml_data = "[(''a'', YInt 1), (''b'', YInt 2)]" and L = stub_lib]
  by (auto simp: node_simps eval_simps)

section \<open>Running the same pass twice\<close>

text \<open>
  Claim C3 at the document \<^verbatim>\<open>{"a": 1}\<close> with no filter. \<^verbatim>\<open>process\<close> purges
  with the four fixed names only, before it has computed the names of this pass: the
  second, identical pass removes \<^verbatim>\<open>output_a\<close> and creates it again. The parameters
  are the same after both passes.
\<close>

theorem process_twice_recreates:
  "journal (state_of (process L (one_file (Inr (YDict [(''a'', YInt 1)]))) file_node))
     = [Created ''output_a''] \<and>
   journal (state_of (process L (one_file (Inr (YDict [(''a'', YInt 1)])))
       (state_of (process L (one_file (Inr (YDict [(''a'', YInt 1)]))) file_node))))
     = [Created ''output_a'', Removed ''output_a'', Created ''output_a''] \<and>
   parameters (state_of (process L (one_file (Inr (YDict [(''a'', YInt 1)])))
       (state_of (process L (one_file (Inr (YDict [(''a'', YInt 1)]))) file_node))))
     = parameters (state_of (process L (one_file (Inr (YDict [(''a'', YInt 1)]))) file_node))"
  by (simp add: node_simps eval_simps)

section \<open>Substrings\<close>

lemma py_in_iff: "py_in sub s \<longleftrightarrow> (\<exists>p t. s = p @ sub @ t)"
proof (induction s)
  case Nil
  show ?case by auto
next
  case (Cons c cs)
  show ?case
  proof
    assume "py_in sub (c # cs)"
    then consider "take (length sub) (c # cs) = sub" | "py_in sub cs" by auto
    then show "\<exists>p t. c # cs = p @ sub @ t"
    proof cases
      case 1
      then have "c # cs = [] @ sub @ drop (length sub) (c # cs)"
        by (metis append_Nil append_take_drop_id)
      then show ?thesis by blast
    next
      case 2
      with Cons.IH obtain p t where "cs = p @ sub @ t" by auto
      then have "c # cs = (c # p) @ sub @ t" by simp
      then show ?thesis by blast
    qed
  next
    assume "\<exists>p t. c # cs = p @ sub @ t"
    then obtain p t where eq: "c # cs = p @ sub @ t" by auto
    show "py_in sub (c # cs)"
    proof (cases p)
      case Nil
      with eq have "take (length sub) (c # cs) = sub" by simp
      then show ?thesis by simp
    next
      case (Cons a p')
      with eq have "cs = p' @ sub @ t" by simp
      with Cons.IH have "py_in sub cs" by auto
      then show ?thesis by simp
    qed
  qed
qed

section \<open>Names of a pass\<close>

lemma update_loop_fst_indep:
  "fst (update_loop L items used self) = fst (update_loop L items used self')"
proof (induction items arbitrary: used self self')
  case Nil
  show ?case by simp
next
  case (Cons item rest)
  obtain key v where item: "item = (key, v)" by (cases item)
  show ?case
    unfolding item update_loop.simps Let_def by (rule Cons.IH)
qed

lemma update_loop_fst_Cons:
  "fst (update_loop L ((key, v) # rest) used self)
     = fst (update_loop L rest
              (finsert (unique_name used (''output_'' @ key) (''output_'' @ key) 1) used) self)"
  unfolding update_loop.simps Let_def by (rule update_loop_fst_indep)

lemma update_loop_item_thrice:
  "fst (update_loop L [(''item'', a), (''item'', b), (''item'', c)] {||} self)
     = {|''output_item'', ''output_item_1'', ''output_item_2''|}"
proof -
  have n1: "unique_name {||} (''output_'' @ ''item'') (''output_'' @ ''item'') 1
              = ''output_item''"
    by (simp add: unique_name.simps)
  have n2: "unique_name (finsert ''output_item'' {||})
              (''output_'' @ ''item'') (''output_'' @ ''item'') 1 = ''output_item_1''"
    by (simp add: unique_name.simps eval_simps)
  have n3: "unique_name (finsert ''output_item_1'' (finsert ''output_item'' {||}))
              (''output_'' @ ''item'') (''output_'' @ ''item'') 1 = ''output_item_2''"
    by (simp add: unique_name.simps eval_simps)
  have "fst (update_loop L [(''item'', a), (''item'', b), (''item'', c)] {||} self)
      = fst (update_loop L [(''item'', b), (''item'', c)] (finsert ''output_item'' {||}) self)"
    by (subst update_loop_fst_Cons) (simp only: n1)
  also have "\<dots> = fst (update_loop L [(''item'', c)]
                        (finsert ''output_item_1'' (finsert ''output_item'' {||})) self)"
    by (subst update_loop_fst_Cons) (simp only: n2)
  also have "\<dots> = fst (update_loop L []
       (finsert ''output_item_2'' (finsert ''output_item_1'' (finsert ''output_item'' {||})))
       self)"
    by (subst update_loop_fst_Cons) (simp only: n3)
  also have "\<dots> = {|''output_item'', ''output_item_1'', ''output_item_2''|}"
    by (simp only: update_loop.simps(1) fst_conv) (rule fset_eqI, simp, blast)
  finally show ?thesis .
qed

lemma update_loop_single:
  "parameter_output_values (snd (update_loop L [(key, v)] used_names self))
     (unique_name used_names (''output_'' @ key) (''output_'' @ key) 1)
     = Some (YStr (py_str L v)) \<and>
   unique_name used_names (''output_'' @ key) (''output_'' @ key) 1
     \<in> set (parameters (snd (update_loop L [(key, v)] used_names self)))"
  by (simp add: Let_def does_name_exist_def add_parameter_def)

lemma unique_name_least:
  "param_name |\<in>| used_names \<Longrightarrow>
   \<exists>m\<ge>counter.
     unique_name used_names base_name param_name counter = base_name @ ''_'' @ show_nat m \<and>
     base_name @ ''_'' @ show_nat m |\<notin>| used_names \<and>
     (\<forall>j. counter \<le> j \<and> j < m \<longrightarrow> base_name @ ''_'' @ show_nat j |\<in>| used_names)"
proof (induction used_names base_name param_name counter rule: unique_name.induct)
  case (1 used_names base_name param_name counter)
  let ?next = "base_name @ ''_'' @ show_nat counter"
  have step: "unique_name used_names base_name param_name counter
                = unique_name used_names base_name ?next (counter + 1)"
    using "1.prems" by (subst unique_name.simps) simp
  show ?case
  proof (cases "?next |\<in>| used_names")
    case False
    then have "unique_name used_names base_name ?next (counter + 1) = ?next"
      by (subst unique_name.simps) simp
    with step False show ?thesis by (intro exI[of _ counter]) auto
  next
    case True
    from "1.IH"[OF "1.prems" True] obtain m where m: "counter + 1 \<le> m"
      and r: "unique_name used_names base_name ?next (counter + 1)
                = base_name @ ''_'' @ show_nat m"
      and n: "base_name @ ''_'' @ show_nat m |\<notin>| used_names"
      and a: "\<forall>j. counter + 1 \<le> j \<and> j < m \<longrightarrow> base_name @ ''_'' @ show_nat j |\<in>| used_names"
      by blast
    have "\<forall>j. counter \<le> j \<and> j < m \<longrightarrow> base_name @ ''_'' @ show_nat j |\<in>| used_names"
    proof (intro allI impI)
      fix j assume j: "counter \<le> j \<and> j < m"
      show "base_name @ ''_'' @ show_nat j |\<in>| used_names"
      proof (cases "j = counter")
        case True
        with \<open>?next |\<in>| used_names\<close> show ?thesis by simp
      next
        case False
        with j have "counter + 1 \<le> j \<and> j < m" by simp
        with a show ?thesis by blast
      qed
    qed
    with m r n step show ?thesis by (intro exI[of _ m]) auto
  qed
qed

text \<open>
  Claim C5, as the code has it. The \<^verbatim>\<open>while\<close> loop keeps a base name that is not
  in \<^verbatim>\<open>used_names\<close>; a taken base name gets the suffix \<^verbatim>\<open>_m\<close> for the least
  \<open>m\<close> from 1 on whose name is not taken: the suffixes \<^verbatim>\<open>_1\<close>, \<^verbatim>\<open>_2\<close>, ... are
  tried in this order. Each entry of the loop's list is named so against the names given
  before it and stores its value under that name; three entries with the key
  \<^verbatim>\<open>item\<close> would be named \<^verbatim>\<open>output_item\<close>, \<^verbatim>\<open>output_item_1\<close> and
  \<^verbatim>\<open>output_item_2\<close>. The entries of a pass come from a dict, though: their keys
  differ, and each gets the name \<^verbatim>\<open>output_<key>\<close> with no suffix.
\<close>

theorem names_of_a_pass:
  "(base_name |\<notin>| used_names \<longrightarrow>
      unique_name used_names base_name base_name 1 = base_name) \<and>
   (base_name |\<in>| used_names \<longrightarrow>
      (\<exists>m\<ge>1. unique_name used_names base_name base_name 1 = base_name @ ''_'' @ show_nat m \<and>
         base_name @ ''_'' @ show_nat m |\<notin>| used_names \<and>
         (\<forall>j. 1 \<le> j \<and> j < m \<longrightarrow> base_name @ ''_'' @ show_nat j |\<in>| used_names))) \<and>
   fst (update_loop L ((key, v) # rest) used_names self)
     = fst (update_loop L rest
              (finsert (unique_name used_names (''output_'' @ key) (''output_'' @ key) 1)
                 used_names) self) \<and>
   parameter_output_values (snd (update_loop L [(key, v)] used_names self))
     (unique_name used_names (''output_'' @ key) (''output_'' @ key) 1)
     = Some (YStr (py_str L v)) \<and>
   fst (update_loop L [(''item'', a), (''item'', b), (''item'', c)] {||} self)
     = {|''output_item'', ''output_item_1'', ''output_item_2''|} \<and>
   fst (update_loop L (filter_items key_filter (flatten_yaml yaml_data [] ''.'')) {||} self)
     = fset_of_list (map output_name (filter_items key_filter (flatten_yaml yaml_data [] ''.'')))"
proof -
  let ?items = "filter_items key_filter (flatten_yaml yaml_data [] ''.'')"
  have d: "distinct (map fst ?items)"
    by (rule filter_items_distinct) (rule flatten_yaml_distinct)
  have pass: "fst (update_loop L ?items {||} self) = fset_of_list (map output_name ?items)"
    by (subst update_loop_distinct[OF d]) simp_all
  have free: "base_name |\<notin>| used_names \<longrightarrow>
      unique_name used_names base_name base_name 1 = base_name"
    by (simp add: unique_name_free)
  have taken: "base_name |\<in>| used_names \<longrightarrow>
      (\<exists>m\<ge>1. unique_name used_names base_name base_name 1 = base_name @ ''_'' @ show_nat m \<and>
         base_name @ ''_'' @ show_nat m |\<notin>| used_names \<and>
         (\<forall>j. 1 \<le> j \<and> j < m \<longrightarrow> base_name @ ''_'' @ show_nat j |\<in>| used_names))"
    using unique_name_least[of base_name used_names 1 base_name] by blast
  from free taken update_loop_fst_Cons[of L key v rest used_names self]
    update_loop_single[of L key v used_names self, THEN conjunct1]
    update_loop_item_thrice[of L a b c self] pass
  show ?thesis by (intro conjI)
qed

theorem names_of_a_pass_witness:
  "unique_name {||} ''output_item'' ''output_item'' 1 = ''output_item'' \<and>
   ''output_item'' |\<in>| {|''output_item'', ''output_item_1''|} \<and>
   unique_name {|''output_item'', ''output_item_1''|} ''output_item'' ''output_item'' 1
     = ''output_item_2''"
proof -
  note th = names_of_a_pass[where base_name = "''output_item''" and L = stub_lib
      and key = "''item''" and v = YNull and rest = "[]" and self = file_node
      and a = YNull and b = YNull and c = YNull and key_filter = None and yaml_data = "[]"]
  have free: "''output_item'' |\<notin>| ({||} :: string fset)" by simp
  have taken: "''output_item'' |\<in>| {|''output_item'', ''output_item_1''|}" by simp
  note first = th[where used_names = "{||}", THEN conjunct1, THEN mp, OF free]
  note later = th[where used_names = "{|''output_item'', ''output_item_1''|}",
      THEN conjunct2, THEN conjunct1, THEN mp, OF taken]
  have "unique_name {|''output_item'', ''output_item_1''|} ''output_item'' ''output_item'' 1
     = ''output_item_2''"
    using later by (simp add: unique_name.simps eval_simps)
  with first taken show ?thesis by (intro conjI)
qed

text \<open>
  Claim C5 as stated fails: the document \<^verbatim>\<open>{"a b": 1, "a_b": 2}\<close> collects two
  items with the key \<^verbatim>\<open>a_b\<close>, and the pass ends with the single parameter
  \<^verbatim>\<open>output_a_b\<close> beside the fixed ones.
\<close>

theorem colliding_keys_one_slot_counterexample:
  "flatten_items [(''a b'', YInt 1), (''a_b'', YInt 2)] [] ''.''
     = [(''a_b'', YInt 1), (''a_b'', YInt 2)] \<and>
   parameters (state_of (process stub_lib
       (one_file (Inr (YDict [(''a b'', YInt 1), (''a_b'', YInt 2)]))) file_node))
     = [''yaml_file'', ''key_filter'', ''yaml_data'', ''status_message'', ''output_a_b'']"
  by (simp add: node_simps eval_simps)

section \<open>Failing passes\<close>

lemma set_status_fields:
  "parameters (set_status msg self) = parameters self"
  "parameter_output_values (set_status msg self) = parameter_output_values self"
  "journal (set_status msg self) = journal self"
  "parameter_values (set_status msg self) ''status_message'' = Some (YStr msg)"
  by (simp_all add: set_status_def)

text \<open>
  Claim C4, as the code has it. When the file cannot be loaded, or its root is not a
  mapping, \<^verbatim>\<open>process\<close> leaves the parameters, the output values and the journal as
  they were and writes the status message. It raises the error again in the first case
  and returns normally in the second. The second loader raises what
  \<^verbatim>\<open>_load_yaml_file\<close> raises and leaves the node as it was, status included.
\<close>

theorem failed_pass_keeps_slots:
  assumes "get_parameter_value self ''yaml_file'' = Some path"
    and "get_parameter_value new_self ''yaml_file'' = Some path"
    and "fs path = Inl e \<or> (fs path = Inr doc \<and> doc \<notin> range YDict)"
  shows "parameters (state_of (process L fs self)) = parameters self \<and>
         parameter_output_values (state_of (process L fs self)) = parameter_output_values self \<and>
         journal (state_of (process L fs self)) = journal self \<and>
         parameter_values (state_of (process L fs self)) ''status_message''
           = Some (YStr (case fs path of
                           Inl e \<Rightarrow> ''Error loading YAML file: '' @ str_error e
                         | Inr d \<Rightarrow> ''YAML file must contain a dictionary at the root level'')) \<and>
         raised_error (process L fs self) = (case fs path of Inl e \<Rightarrow> Some e | Inr d \<Rightarrow> None) \<and>
         (load_yaml_file fs path = Inl e' \<longrightarrow>
            after_value_set L fs ''yaml_file'' new_self = Raised e' new_self)"
proof -
  have new: "load_yaml_file fs path = Inl e' \<longrightarrow>
            after_value_set L fs ''yaml_file'' new_self = Raised e' new_self"
    using assms(2) by (simp add: after_value_set_def)
  from assms(3) show ?thesis
  proof
    assume "fs path = Inl e"
    then show ?thesis
      using assms(1) new by (simp add: process_def set_status_fields)
  next
    assume a: "fs path = Inr doc \<and> doc \<notin> range YDict"
    then have "process L fs self
        = Returned (set_status ''YAML file must contain a dictionary at the root level'' self)"
      using assms(1) by (cases doc) (auto simp: process_def)
    then show ?thesis
      using a new by (simp add: set_status_fields)
  qed
qed

theorem failed_pass_keeps_slots_witness:
  "parameters (state_of (process stub_lib (one_file (Inl (YAMLError ''bad indentation'')))
       file_node)) = parameters file_node \<and>
   journal (state_of (process stub_lib (one_file (Inl (YAMLError ''bad indentation'')))
       file_node)) = [] \<and>
   parameter_values (state_of (process stub_lib (one_file (Inl (YAMLError ''bad indentation'')))
       file_node)) ''status_message''
     = Some (YStr ''Error loading YAML file: bad indentation'') \<and>
   raised_error (process stub_lib (one_file (Inl (YAMLError ''bad indentation''))) file_node)
     = Some (YAMLError ''bad indentation'') \<and>
   after_value_set stub_lib (one_file (Inl (YAMLError ''bad indentation''))) ''yaml_file''
       new_file_node
     = Raised (ValueError ''Error parsing YAML file: bad indentation'') new_file_node"
proof -
  have a: "get_parameter_value file_node ''yaml_file'' = Some ''config.yaml''"
    by (simp add: get_parameter_value_def file_node_def)
  have b: "get_parameter_value new_file_node ''yaml_file'' = Some ''config.yaml''"
    by (simp add: get_parameter_value_def new_file_node_def)
  have c: "one_file (Inl (YAMLError ''bad indentation'')) ''config.yaml''
             = Inl (YAMLError ''bad indentation'') \<or>
           (one_file (Inl (YAMLError ''bad indentation'')) ''config.yaml'' = Inr YNull \<and>
            YNull \<notin> range YDict)"
    by simp
  have d: "load_yaml_file (one_file (Inl (YAMLError ''bad indentation''))) ''config.yaml''
             = Inl (ValueError ''Error parsing YAML file: bad indentation'')"
    by (simp add: load_yaml_file_def)
  from failed_pass_keeps_slots[where L = stub_lib and self = file_node
      and new_self = new_file_node and path = "''config.yaml''"
      and fs = "one_file (Inl (YAMLError ''bad indentation''))"
      and e = "YAMLError ''bad indentation''" and doc = YNull
      and e' = "ValueError ''Error parsing YAML file: bad indentation''", OF a b c] d
  show ?thesis by (simp add: file_node_def init_node_def)
qed

text \<open>
  Claim C4 as stated fails twice. A scalar root makes \<^verbatim>\<open>process\<close> return without
  raising; and a missing file makes the second loader raise with the status slot still
  unset.
\<close>

theorem failed_pass_counterexample:
  "raised_error (process stub_lib (one_file (Inr (YInt 5))) file_node) = None \<and>
   raised_error (after_value_set stub_lib (one_file (Inl (FileNotFoundError ''No such file'')))
       ''yaml_file'' new_file_node)
     = Some (FileNotFoundError ''The file config.yaml was not found.'') \<and>
   parameter_values (state_of (after_value_set stub_lib
       (one_file (Inl (FileNotFoundError ''No such file''))) ''yaml_file'' new_file_node))
       ''status_message'' = None"
  by (simp add: node_simps after_value_set_def load_yaml_file_def new_file_node_def
        new_init_node_def)

section \<open>The slot loop of the second loader\<close>

lemma slot_loop_fields:
  "(slot_loop L c i items valid self = Inl (e, self') \<longrightarrow>
      yaml_dictionary self' = yaml_dictionary self \<and> yaml_list self' = yaml_list self) \<and>
   (slot_loop L c i items valid self = Inr (valid', self') \<longrightarrow>
      yaml_dictionary self' = yaml_dictionary self \<and> yaml_list self' = yaml_list self)"
proof (induction items arbitrary: i valid self)
  case Nil
  show ?case by auto
next
  case (Cons item rest)
  show ?case
  proof (cases "py_getitem L c item")
    case (Inl err)
    then show ?thesis by (auto simp: Let_def add_parameter_def)
  next
    case (Inr v)
    let ?name = "show_nat i @ ''_'' @ py_str L item"
    let ?next = "set_parameter_value ?name v
        (if \<not> does_name_exist self ?name then add_parameter ?name self else self)"
    have step: "slot_loop L c i (item # rest) valid self
        = slot_loop L c (Suc i) rest (insert ?name valid) ?next"
      using Inr by (simp add: Let_def)
    have f: "yaml_dictionary ?next = yaml_dictionary self" "yaml_list ?next = yaml_list self"
      by (simp_all add: set_parameter_value_def add_parameter_def)
    show ?thesis
      unfolding step using Cons.IH[of "Suc i" "insert ?name valid" ?next] f by simp
  qed
qed

lemma slot_loop_dict:
  "(\<And>item. item \<in> set items \<Longrightarrow> \<exists>k. item = YStr k \<and> k \<in> fst ` set d) \<Longrightarrow>
   \<exists>valid' self'. slot_loop L (YDict d) i items valid self = Inr (valid', self')"
proof (induction items arbitrary: i valid self)
  case Nil
  show ?case by simp
next
  case (Cons item rest)
  from Cons.prems[of item] obtain k where k: "item = YStr k" "k \<in> fst ` set d" by auto
  then obtain v where v: "map_of d k = Some v"
    by (metis map_of_eq_None_iff not_Some_eq)
  have g: "py_getitem L (YDict d) item = Inr v"
    by (simp add: py_getitem_def k v)
  have "\<exists>valid' self'. slot_loop L (YDict d) j rest w s = Inr (valid', self')" for j w s
    by (rule Cons.IH) (simp add: Cons.prems)
  then show ?case using g by (simp add: Let_def)
qed

lemma list_getitem_index:
  "is_index item \<Longrightarrow>
   (\<exists>v. list_getitem xs item = Inr v) \<or> (\<exists>m. list_getitem xs item = Inl (IndexError m))"
  by (cases item) (auto simp: list_getitem_def list_index_def)

lemma list_getitem_not_index:
  "\<not> is_index item \<Longrightarrow> \<exists>m. list_getitem xs item = Inl (TypeError m)"
  by (cases item) (auto simp: list_getitem_def)

lemma slot_loop_list:
  "\<exists>x \<in> set items. \<not> is_index x \<Longrightarrow>
   \<exists>e self'. slot_loop L (YList xs) i items valid self = Inl (e, self') \<and>
     (if \<forall>x \<in> set (takeWhile is_index items). \<exists>v. list_getitem xs x = Inr v
      then is_type_error e else is_index_error e)"
proof (induction items arbitrary: i valid self)
  case Nil
  then show ?case by simp
next
  case (Cons item rest)
  have g: "py_getitem L (YList xs) item = list_getitem xs item"
    by (simp add: py_getitem_def)
  show ?case
  proof (cases "is_index item")
    case False
    then obtain m where "list_getitem xs item = Inl (TypeError m)"
      using list_getitem_not_index by blast
    then show ?thesis using False g by (simp add: Let_def)
  next
    case True
    from list_getitem_index[OF True, of xs] show ?thesis
    proof
      assume "\<exists>v. list_getitem xs item = Inr v"
      then obtain v where v: "list_getitem xs item = Inr v" by blast
      from Cons.prems True have "\<exists>x \<in> set rest. \<not> is_index x" by auto
      from Cons.IH[OF this] show ?thesis
        using True v g by (simp add: Let_def)
    next
      assume "\<exists>m. list_getitem xs item = Inl (IndexError m)"
      then obtain m where m: "list_getitem xs item = Inl (IndexError m)" by blast
      then show ?thesis using True g by (simp add: Let_def)
    qed
  qed
qed

lemma show_nat_head: "\<exists>c cs. show_nat n = c # cs \<and> c \<noteq> CHR ''y''"
proof (induction n rule: show_nat.induct)
  case (1 n)
  show ?case
  proof (cases "n < 10")
    case True
    then have "(of_char (digit_char n) :: nat) = 48 + n"
      by (simp add: digit_char_def take_bit_eq_mod)
    moreover have "(of_char (CHR ''y'') :: nat) = 121" by simp
    ultimately have "digit_char n \<noteq> CHR ''y''" using True by auto
    then show ?thesis using True by (subst show_nat.simps) simp
  next
    case False
    with 1 obtain c cs where "show_nat (n div 10) = c # cs" "c \<noteq> CHR ''y''" by blast
    then show ?thesis using False by (subst show_nat.simps) simp
  qed
qed

lemma slot_name_not_yaml_data: "show_nat i @ ''_'' @ s \<noteq> ''yaml_data''"
  using show_nat_head[of i] by auto

lemma slot_loop_yaml_data:
  "(slot_loop L c i items valid self = Inl (e, self') \<longrightarrow>
      parameter_values self' ''yaml_data'' = parameter_values self ''yaml_data'') \<and>
   (slot_loop L c i items valid self = Inr (valid', self') \<longrightarrow>
      parameter_values self' ''yaml_data'' = parameter_values self ''yaml_data'')"
proof (induction items arbitrary: i valid self)
  case Nil
  show ?case by auto
next
  case (Cons item rest)
  show ?case
  proof (cases "py_getitem L c item")
    case (Inl err)
    then show ?thesis by (auto simp: Let_def add_parameter_def)
  next
    case (Inr v)
    let ?name = "show_nat i @ ''_'' @ py_str L item"
    let ?next = "set_parameter_value ?name v
        (if \<not> does_name_exist self ?name then add_parameter ?name self else self)"
    have step: "slot_loop L c i (item # rest) valid self
        = slot_loop L c (Suc i) rest (insert ?name valid) ?next"
      using Inr by (simp add: Let_def)
    have f: "parameter_values ?next ''yaml_data'' = parameter_values self ''yaml_data''"
      using slot_name_not_yaml_data[of i "py_str L item"]
      by (simp add: set_parameter_value_def add_parameter_def)
    show ?thesis
      unfolding step using Cons.IH[of "Suc i" "insert ?name valid" ?next] f by simp
  qed
qed

lemma purge_new_fields:
  fixes self :: new_node
  shows "yaml_dictionary (fst (purge_old_parameters valid self)) = yaml_dictionary self"
    and "yaml_list (fst (purge_old_parameters valid self)) = yaml_list self"
proof -
  have "yaml_dictionary (fold remove_parameter_element stale s) = yaml_dictionary s \<and>
        yaml_list (fold remove_parameter_element stale s) = yaml_list s"
    for stale and s :: new_node
    by (induction stale arbitrary: s) (simp_all add: remove_parameter_element_def)
  then show "yaml_dictionary (fst (purge_old_parameters valid self)) = yaml_dictionary self"
    and "yaml_list (fst (purge_old_parameters valid self)) = yaml_list self"
    by (simp_all add: purge_old_parameters_def Let_def)
qed

lemma filter_yaml_list_dict:
  "filter_yaml_list key_filter (YDict d) = Inr (YDict (filter_items key_filter d))"
  by (simp add: filter_yaml_list_def filter_items_def split: option.splits)

lemma filter_yaml_list_empty:
  "key_filter = None \<or> key_filter = Some [] \<Longrightarrow> filter_yaml_list key_filter c = Inr c"
  by (auto simp: filter_yaml_list_def)

lemma load_yaml_file_Inr:
  "load_yaml_file fs path = Inr doc \<Longrightarrow>
   fs path = Inr doc \<and> ((\<exists>d. doc = YDict d) \<or> (\<exists>l. doc = YList l))"
  by (auto simp: load_yaml_file_def split: sum.splits yaml.splits error.splits)

lemma load_yaml_file_container:
  "fs path = Inr (YList l) \<Longrightarrow> load_yaml_file fs path = Inr (YList l)"
  "fs path = Inr (YDict d) \<Longrightarrow> load_yaml_file fs path = Inr (YDict d)"
  by (simp_all add: load_yaml_file_def)

text \<open>The rest of a pass once \<open>yaml_list\<close> is settled.\<close>

lemma after_value_set_loaded:
  assumes "p \<in> {''yaml_file'', ''key_filter''}"
    and "get_parameter_value self ''yaml_file'' = Some path"
    and "load_yaml_file fs path = Inr doc"
  shows "after_value_set L fs p self =
    (let self1 = (case doc of YDict d \<Rightarrow> self\<lparr>yaml_dictionary := d\<rparr>
                  | YList l \<Rightarrow> self\<lparr>yaml_list := doc\<rparr> | _ \<Rightarrow> self);
         self2 = (if yaml_dictionary self1 \<noteq> []
                  then self1\<lparr>yaml_list := YDict (flatten_yaml (yaml_dictionary self1) [] ''.'')\<rparr>
                  else self1)
     in case filter_yaml_list (get_parameter_value self ''key_filter'') (yaml_list self2) of
          Inl e \<Rightarrow> Raised e self2
        | Inr filtered \<Rightarrow>
            (case slot_loop L filtered 1 (py_iter filtered) fixed_names
                    (set_parameter_value ''yaml_data'' (YStr (yaml_dump L filtered))
                       (self2\<lparr>yaml_list := filtered\<rparr>)) of
               Inl (e, self5) \<Rightarrow> Raised e self5
             | Inr (valid, self5) \<Rightarrow> Returned (fst (purge_old_parameters valid self5))))"
  using assms(1)
  by (simp add: after_value_set_def assms(2,3) Let_def set_parameter_value_def
        split: sum.splits)

lemma after_value_set_dictionary:
  assumes "p \<in> {''yaml_file'', ''key_filter''}"
    and "get_parameter_value self ''yaml_file'' = Some path"
    and "load_yaml_file fs path = Inr doc"
  shows "yaml_dictionary (state_of (after_value_set L fs p self))
           = (case doc of YDict d \<Rightarrow> d | _ \<Rightarrow> yaml_dictionary self)"
proof -
  define self1 where "self1 = (case doc of YDict d \<Rightarrow> self\<lparr>yaml_dictionary := d\<rparr>
                  | YList l \<Rightarrow> self\<lparr>yaml_list := doc\<rparr> | _ \<Rightarrow> self)"
  define self2 where "self2 = (if yaml_dictionary self1 \<noteq> []
                  then self1\<lparr>yaml_list := YDict (flatten_yaml (yaml_dictionary self1) [] ''.'')\<rparr>
                  else self1)"
  have d1: "yaml_dictionary self1 = (case doc of YDict d \<Rightarrow> d | _ \<Rightarrow> yaml_dictionary self)"
    by (simp add: self1_def split: yaml.splits)
  have d2: "yaml_dictionary self2 = yaml_dictionary self1"
    by (simp add: self2_def)
  have eq: "after_value_set L fs p self =
     (case filter_yaml_list (get_parameter_value self ''key_filter'') (yaml_list self2) of
          Inl e \<Rightarrow> Raised e self2
        | Inr filtered \<Rightarrow>
            (case slot_loop L filtered 1 (py_iter filtered) fixed_names
                    (set_parameter_value ''yaml_data'' (YStr (yaml_dump L filtered))
                       (self2\<lparr>yaml_list := filtered\<rparr>)) of
               Inl (e, self5) \<Rightarrow> Raised e self5
             | Inr (valid, self5) \<Rightarrow> Returned (fst (purge_old_parameters valid self5))))"
    unfolding after_value_set_loaded[OF assms] self1_def self2_def Let_def ..
  show ?thesis
  proof (cases "filter_yaml_list (get_parameter_value self ''key_filter'') (yaml_list self2)")
    case (Inl e)
    then show ?thesis by (simp add: eq d1 d2)
  next
    case (Inr filtered)
    let ?start = "set_parameter_value ''yaml_data'' (YStr (yaml_dump L filtered))
                       (self2\<lparr>yaml_list := filtered\<rparr>)"
    have s: "yaml_dictionary ?start = yaml_dictionary self2"
      by (simp add: set_parameter_value_def)
    show ?thesis
    proof (cases "slot_loop L filtered 1 (py_iter filtered) fixed_names ?start")
      case (Inl a)
      obtain e self5 where a: "a = (e, self5)" by (cases a)
      with Inl slot_loop_fields[of L filtered 1 "py_iter filtered" fixed_names ?start e self5]
      have "yaml_dictionary self5 = yaml_dictionary ?start" by simp
      then show ?thesis using Inl Inr a by (simp add: eq s d1 d2)
    next
      case (Inr b)
      obtain valid self5 where b: "b = (valid, self5)" by (cases b)
      with Inr slot_loop_fields[of L filtered 1 "py_iter filtered" fixed_names ?start _ self5 valid]
      have "yaml_dictionary self5 = yaml_dictionary ?start" by simp
      then show ?thesis
        using Inr \<open>filter_yaml_list _ _ = Inr filtered\<close> b
        by (simp add: eq s d1 d2 purge_new_fields)
    qed
  qed
qed

lemma after_value_set_keeps_dictionary:
  assumes "\<And>path d. get_parameter_value self ''yaml_file'' = Some path \<Longrightarrow>
             fs path \<noteq> Inr (YDict d)"
  shows "yaml_dictionary (state_of (after_value_set L fs p self)) = yaml_dictionary self"
proof (cases "p \<in> {''yaml_file'', ''key_filter''}")
  case False
  then show ?thesis by (simp add: after_value_set_def)
next
  case True
  show ?thesis
  proof (cases "get_parameter_value self ''yaml_file''")
    case None
    then show ?thesis using True by (simp add: after_value_set_def set_status_def)
  next
    case (Some path)
    show ?thesis
    proof (cases "load_yaml_file fs path")
      case (Inl e)
      then show ?thesis using True Some by (simp add: after_value_set_def)
    next
      case (Inr doc)
      from load_yaml_file_Inr[OF Inr] assms[OF Some] have "\<forall>d. doc \<noteq> YDict d" by auto
      then show ?thesis
        using after_value_set_dictionary[OF True Some Inr, of L]
        by (cases doc) simp_all
    qed
  qed
qed

lemma after_value_set_stored:
  assumes "p \<in> {''yaml_file'', ''key_filter''}"
    and "get_parameter_value self ''yaml_file'' = Some path"
    and "fs path = Inr (YList l) \<or> fs path = Inr (YDict (yaml_dictionary self))"
    and "yaml_dictionary self \<noteq> []"
  shows "after_value_set L fs p self =
     (case slot_loop L
             (YDict (filter_items (get_parameter_value self ''key_filter'')
                       (flatten_yaml (yaml_dictionary self) [] ''.'')))
             1
             (py_iter (YDict (filter_items (get_parameter_value self ''key_filter'')
                       (flatten_yaml (yaml_dictionary self) [] ''.''))))
             fixed_names
             (set_parameter_value ''yaml_data''
                (YStr (yaml_dump L (YDict (filter_items (get_parameter_value self ''key_filter'')
                       (flatten_yaml (yaml_dictionary self) [] ''.'')))))
                (self\<lparr>yaml_list := YDict (filter_items (get_parameter_value self ''key_filter'')
                       (flatten_yaml (yaml_dictionary self) [] ''.''))\<rparr>)) of
        Inl (e, self5) \<Rightarrow> Raised e self5
      | Inr (valid, self5) \<Rightarrow> Returned (fst (purge_old_parameters valid self5)))"
  using assms(3)
proof
  assume "fs path = Inr (YList l)"
  then have "load_yaml_file fs path = Inr (YList l)" by (rule load_yaml_file_container)
  from after_value_set_loaded[OF assms(1,2) this, of L] assms(4)
  show ?thesis by (simp add: filter_yaml_list_dict)
next
  assume "fs path = Inr (YDict (yaml_dictionary self))"
  then have "load_yaml_file fs path = Inr (YDict (yaml_dictionary self))"
    by (rule load_yaml_file_container)
  from after_value_set_loaded[OF assms(1,2) this, of L] assms(4)
  show ?thesis by (simp add: filter_yaml_list_dict)
qed

lemmas new_node_simps =
  after_value_set_def load_yaml_file_def get_parameter_value_def set_status_def
  set_parameter_value_def purge_old_parameters_def remove_parameter_element_def
  add_parameter_def does_name_exist_def filter_yaml_list_def py_iter_def py_getitem_def
  list_getitem_def list_index_def new_file_node_def new_init_node_def fixed_names_def
  py_str_def show_int_def stub_lib_def Let_def

section \<open>A stored mapping outlives later loads\<close>

text \<open>
  Claim C9, as the code has it. Let the field \<^verbatim>\<open>yaml_dictionary\<close> hold a non-empty
  mapping \<open>M\<close>. A pass that loads no mapping (it loads a sequence, fails, or loads
  nothing) leaves \<open>M\<close> in the field; a pass that loads a mapping stores that mapping
  instead. A pass that loads a sequence \<open>l\<close> returns normally and is, result and state,
  the pass that loads \<open>M\<close> again: \<^verbatim>\<open>yaml_list\<close> is the filtered flattening of
  \<open>M\<close>, and \<^verbatim>\<open>yaml_data\<close> is its dump; \<open>l\<close> plays no part.
\<close>

theorem stored_mapping_shadows_sequence:
  assumes "yaml_dictionary self = M" and "M \<noteq> []"
  shows "((\<forall>path d. get_parameter_value self ''yaml_file'' = Some path \<longrightarrow>
              fs path \<noteq> Inr (YDict d)) \<longrightarrow>
            yaml_dictionary (state_of (after_value_set L fs p self)) = M) \<and>
         (p \<in> {''yaml_file'', ''key_filter''} \<and>
          get_parameter_value self ''yaml_file'' = Some path \<and> fs path = Inr (YDict d) \<longrightarrow>
            yaml_dictionary (state_of (after_value_set L fs p self)) = d) \<and>
         (p \<in> {''yaml_file'', ''key_filter''} \<and>
          get_parameter_value self ''yaml_file'' = Some path \<and> fs path = Inr (YList l) \<longrightarrow>
            \<not> is_raised (after_value_set L fs p self) \<and>
            after_value_set L fs p self = after_value_set L (one_file (Inr (YDict M))) p self \<and>
            yaml_list (state_of (after_value_set L fs p self))
              = YDict (filter_items (get_parameter_value self ''key_filter'')
                         (flatten_yaml M [] ''.'')) \<and>
            parameter_values (state_of (after_value_set L fs p self)) ''yaml_data''
              = Some (YStr (yaml_dump L
                  (YDict (filter_items (get_parameter_value self ''key_filter'')
                            (flatten_yaml M [] ''.''))))))"
proof (intro conjI impI)
  assume "\<forall>path d. get_parameter_value self ''yaml_file'' = Some path \<longrightarrow>
              fs path \<noteq> Inr (YDict d)"
  then show "yaml_dictionary (state_of (after_value_set L fs p self)) = M"
    using after_value_set_keeps_dictionary[of self fs L p] assms(1) by blast
next
  assume a: "p \<in> {''yaml_file'', ''key_filter''} \<and>
          get_parameter_value self ''yaml_file'' = Some path \<and> fs path = Inr (YDict d)"
  then have "load_yaml_file fs path = Inr (YDict d)" by (simp add: load_yaml_file_container)
  from after_value_set_dictionary[OF _ _ this, of p self L] a
  show "yaml_dictionary (state_of (after_value_set L fs p self)) = d" by simp
next
  assume a: "p \<in> {''yaml_file'', ''key_filter''} \<and>
          get_parameter_value self ''yaml_file'' = Some path \<and> fs path = Inr (YList l)"
  let ?items = "filter_items (get_parameter_value self ''key_filter'') (flatten_yaml M [] ''.'')"
  let ?start = "set_parameter_value ''yaml_data'' (YStr (yaml_dump L (YDict ?items)))
                  (self\<lparr>yaml_list := YDict ?items\<rparr>)"
  from a have p: "p \<in> {''yaml_file'', ''key_filter''}"
    and g: "get_parameter_value self ''yaml_file'' = Some path"
    and f: "fs path = Inr (YList l)" by simp_all
  have ne: "yaml_dictionary self \<noteq> []" using assms by simp
  have seq: "after_value_set L fs p self =
     (case slot_loop L (YDict ?items) 1 (py_iter (YDict ?items)) fixed_names ?start of
        Inl (e, self5) \<Rightarrow> Raised e self5
      | Inr (valid, self5) \<Rightarrow> Returned (fst (purge_old_parameters valid self5)))"
    using after_value_set_stored[OF p g _ ne, of fs l L] f assms(1) by simp
  have g': "get_parameter_value self ''yaml_file'' = Some path" by (rule g)
  have map: "after_value_set L (one_file (Inr (YDict M))) p self =
     (case slot_loop L (YDict ?items) 1 (py_iter (YDict ?items)) fixed_names ?start of
        Inl (e, self5) \<Rightarrow> Raised e self5
      | Inr (valid, self5) \<Rightarrow> Returned (fst (purge_old_parameters valid self5)))"
    using after_value_set_stored[OF p g _ ne, of "one_file (Inr (YDict M))" l L] assms(1)
    by simp
  have "\<exists>valid self5. slot_loop L (YDict ?items) 1 (py_iter (YDict ?items)) fixed_names ?start
          = Inr (valid, self5)"
    by (rule slot_loop_dict) (force simp: py_iter_def)
  then obtain valid self5 where
    loop: "slot_loop L (YDict ?items) 1 (py_iter (YDict ?items)) fixed_names ?start
          = Inr (valid, self5)" by blast
  from slot_loop_fields[of L "YDict ?items" 1 "py_iter (YDict ?items)" fixed_names ?start
      _ self5 valid] loop
  have yl: "yaml_list self5 = YDict ?items" by (simp add: set_parameter_value_def)
  from slot_loop_yaml_data[of L "YDict ?items" 1 "py_iter (YDict ?items)" fixed_names ?start
      _ self5 valid] loop
  have yd: "parameter_values self5 ''yaml_data'' = Some (YStr (yaml_dump L (YDict ?items)))"
    by (simp add: set_parameter_value_def)
  have res: "after_value_set L fs p self = Returned (fst (purge_old_parameters valid self5))"
    unfolding seq loop by simp
  show "\<not> is_raised (after_value_set L fs p self)" by (simp add: res)
  show "after_value_set L fs p self = after_value_set L (one_file (Inr (YDict M))) p self"
    by (simp add: seq map)
  show "yaml_list (state_of (after_value_set L fs p self)) = YDict ?items"
    by (simp add: res purge_new_fields yl)
  show "parameter_values (state_of (after_value_set L fs p self)) ''yaml_data''
              = Some (YStr (yaml_dump L (YDict ?items)))"
    by (simp add: res purge_values yd)
qed

theorem stored_mapping_shadows_sequence_witness:
  "yaml_dictionary (state_of (after_value_set stub_lib (one_file (Inr (YList [YStr ''x''])))
       ''yaml_file'' (new_file_node\<lparr>yaml_dictionary := [(''a'', YInt 1)]\<rparr>)))
     = [(''a'', YInt 1)] \<and>
   \<not> is_raised (after_value_set stub_lib (one_file (Inr (YList [YStr ''x''])))
       ''yaml_file'' (new_file_node\<lparr>yaml_dictionary := [(''a'', YInt 1)]\<rparr>)) \<and>
   yaml_list (state_of (after_value_set stub_lib (one_file (Inr (YList [YStr ''x''])))
       ''yaml_file'' (new_file_node\<lparr>yaml_dictionary := [(''a'', YInt 1)]\<rparr>)))
     = YDict [(''a'', YInt 1)]"
proof -
  let ?self = "new_file_node\<lparr>yaml_dictionary := [(''a'', YInt 1)]\<rparr>"
  have a: "yaml_dictionary ?self = [(''a'', YInt 1)]" by simp
  have b: "[(''a'', YInt 1)] \<noteq> []" by simp
  have g: "get_parameter_value ?self ''yaml_file'' = Some ''config.yaml''"
    by (simp add: get_parameter_value_def new_file_node_def)
  have k: "get_parameter_value ?self ''key_filter'' = None"
    by (simp add: get_parameter_value_def new_file_node_def)
  have f: "flatten_yaml [(''a'', YInt 1)] [] ''.'' = [(''a'', YInt 1)]"
    by (simp add: eval_simps)
  note th = stored_mapping_shadows_sequence[OF a b, where L = stub_lib
      and fs = "one_file (Inr (YList [YStr ''x'']))" and p = "''yaml_file''"
      and path = "''config.yaml''" and l = "[YStr ''x'']" and d = "[]"]
  have no_mapping: "\<forall>path d. get_parameter_value ?self ''yaml_file'' = Some path \<longrightarrow>
      one_file (Inr (YList [YStr ''x''])) path \<noteq> Inr (YDict d)" by simp
  have loads: "''yaml_file'' \<in> {''yaml_file'', ''key_filter''} \<and>
      get_parameter_value ?self ''yaml_file'' = Some ''config.yaml'' \<and>
      one_file (Inr (YList [YStr ''x''])) ''config.yaml'' = Inr (YList [YStr ''x''])"
    by (simp add: g)
  note kept = th[THEN conjunct1, THEN mp, OF no_mapping]
  note seq = th[THEN conjunct2, THEN conjunct2, THEN mp, OF loads]
  have "yaml_list (state_of (after_value_set stub_lib (one_file (Inr (YList [YStr ''x''])))
       ''yaml_file'' ?self)) = YDict [(''a'', YInt 1)]"
    using seq[THEN conjunct2, THEN conjunct2, THEN conjunct1]
    by (simp add: k f filter_items_def)
  with kept seq[THEN conjunct1] show ?thesis by (intro conjI)
qed

text \<open>
  Claim C9 as stated fails: a later pass that loads another mapping replaces the stored
  one; and after a pass that loads the empty mapping, a pass that loads a sequence works
  on that sequence.
\<close>

theorem stored_mapping_counterexample:
  "yaml_dictionary (state_of (after_value_set stub_lib
       (one_file (Inr (YDict [(''b'', YInt 2)]))) ''yaml_file''
       (state_of (after_value_set stub_lib
          (one_file (Inr (YDict [(''a'', YInt 1)]))) ''yaml_file'' new_file_node))))
     = [(''b'', YInt 2)] \<and>
   yaml_list (state_of (after_value_set stub_lib
       (one_file (Inr (YList [YInt 0]))) ''yaml_file''
       (state_of (after_value_set stub_lib
          (one_file (Inr (YDict []))) ''yaml_file''
          (state_of (after_value_set stub_lib
             (one_file (Inr (YDict [(''a'', YInt 1)]))) ''yaml_file'' new_file_node))))))
     = YList [YInt 0]"
  by (simp add: new_node_simps eval_simps)

section \<open>A sequence indexed by its own elements\<close>

text \<open>
  Claim C10, as the code has it. With no mapping stored and no filter, a pass that loads
  a sequence holding an element that is neither an int nor a bool raises. The error is
  the \<^verbatim>\<open>TypeError\<close> of the first such element when every int or bool before it is
  a valid index of the sequence, and otherwise the \<^verbatim>\<open>IndexError\<close> of the first
  element out of range.
\<close>

theorem sequence_pass_raises:
  assumes "p \<in> {''yaml_file'', ''key_filter''}"
    and "get_parameter_value self ''yaml_file'' = Some path"
    and "fs path = Inr (YList l)"
    and "yaml_dictionary self = []"
    and "get_parameter_value self ''key_filter'' = None \<or>
         get_parameter_value self ''key_filter'' = Some []"
    and "\<exists>x \<in> set l. \<not> is_index x"
  shows "raises (\<lambda>e. if \<forall>x \<in> set (takeWhile is_index l). \<exists>v. list_getitem l x = Inr v
                      then is_type_error e else is_index_error e)
           (after_value_set L fs p self)"
proof -
  let ?start = "set_parameter_value ''yaml_data'' (YStr (yaml_dump L (YList l)))
                  (self\<lparr>yaml_list := YList l\<rparr>)"
  have ld: "load_yaml_file fs path = Inr (YList l)"
    using assms(3) by (rule load_yaml_file_container)
  have fl: "filter_yaml_list (get_parameter_value self ''key_filter'') (YList l) = Inr (YList l)"
    using assms(5) by (rule filter_yaml_list_empty)
  have eq: "after_value_set L fs p self =
     (case slot_loop L (YList l) 1 l fixed_names ?start of
        Inl (e, self5) \<Rightarrow> Raised e self5
      | Inr (valid, self5) \<Rightarrow> Returned (fst (purge_old_parameters valid self5)))"
    using after_value_set_loaded[OF assms(1,2) ld, of L] assms(4)
    by (simp add: fl py_iter_def)
  from slot_loop_list[OF assms(6), of L l 1 fixed_names ?start]
  obtain e self' where
    "slot_loop L (YList l) 1 l fixed_names ?start = Inl (e, self')"
    "if \<forall>x \<in> set (takeWhile is_index l). \<exists>v. list_getitem l x = Inr v
     then is_type_error e else is_index_error e" by blast
  then show ?thesis unfolding eq by simp
qed

theorem sequence_pass_raises_witness:
  "raises is_type_error (after_value_set stub_lib (one_file (Inr (YList [YInt 0, YStr ''a''])))
       ''yaml_file'' new_file_node)"
proof -
  have p: "''yaml_file'' \<in> {''yaml_file'', ''key_filter''}" by simp
  have g: "get_parameter_value new_file_node ''yaml_file'' = Some ''config.yaml''"
    by (simp add: get_parameter_value_def new_file_node_def)
  have f: "one_file (Inr (YList [YInt 0, YStr ''a''])) ''config.yaml''
             = Inr (YList [YInt 0, YStr ''a''])" by simp
  have d: "yaml_dictionary new_file_node = []"
    by (simp add: new_file_node_def new_init_node_def)
  have k: "get_parameter_value new_file_node ''key_filter'' = None \<or>
           get_parameter_value new_file_node ''key_filter'' = Some []"
    by (simp add: get_parameter_value_def new_file_node_def new_init_node_def)
  have x: "\<exists>x \<in> set [YInt 0, YStr ''a'']. \<not> is_index x" by simp
  from sequence_pass_raises[where L = stub_lib and p = "''yaml_file''"
      and self = new_file_node and path = "''config.yaml''"
      and fs = "one_file (Inr (YList [YInt 0, YStr ''a'']))"
      and l = "[YInt 0, YStr ''a'']", OF p g f d k x]
  show ?thesis by (simp add: list_getitem_def list_index_def)
qed

text \<open>
  Claim C10 as stated fails: in \<^verbatim>\<open>[5, "a"]\<close> the element 5 is out of range and the
  pass raises \<^verbatim>\<open>IndexError\<close> before it reaches \<^verbatim>\<open>"a"\<close>; and the booleans of
  \<^verbatim>\<open>[true, false]\<close> index the sequence, so that pass returns.
\<close>

theorem sequence_pass_counterexample:
  "raised_error (after_value_set stub_lib (one_file (Inr (YList [YInt 5, YStr ''a''])))
       ''yaml_file'' new_file_node)
     = Some (IndexError ''list index out of range'') \<and>
   raised_error (after_value_set stub_lib (one_file (Inr (YList [YBool True, YBool False])))
       ''yaml_file'' new_file_node)
     = None"
  by (simp add: new_node_simps eval_simps)

section \<open>The key filter\<close>

lemma of_char_lower_char:
  "(of_char (lower_char c) :: nat)
     = (if capital c then of_char c + 32 else of_char c)"
proof -
  have "(of_char c :: nat) mod 256 < 256" by simp
  then have lt: "(of_char c :: nat) < 256" by (simp only: of_char_mod_256)
  show ?thesis
    using lt by (auto simp: lower_char_def capital_def Let_def take_bit_eq_mod)
qed

lemma lower_char_eq_iff: "lower_char a = lower_char b \<longleftrightarrow> same_letter a b"
proof -
  have "lower_char a = lower_char b
        \<longleftrightarrow> (of_char (lower_char a) :: nat) = of_char (lower_char b)"
    by simp
  also have "\<dots> \<longleftrightarrow> same_letter a b"
    unfolding of_char_lower_char same_letter_def
    by (auto simp: capital_def Let_def)
  finally show ?thesis .
qed

lemma lower_eq_iff: "lower x = lower y \<longleftrightarrow> list_all2 same_letter x y"
proof -
  have "lower x = lower y \<longleftrightarrow> list_all2 (=) (map lower_char x) (map lower_char y)"
    by (simp add: lower_def list.rel_eq)
  also have "\<dots> \<longleftrightarrow> list_all2 (\<lambda>a b. lower_char a = lower_char b) x y"
    by (simp add: list.rel_map)
  also have "\<dots> \<longleftrightarrow> list_all2 same_letter x y"
    by (simp add: lower_char_eq_iff)
  finally show ?thesis .
qed

lemma py_in_lower_iff: "py_in (lower f) (lower key) \<longleftrightarrow> contains_ignoring_case key f"
proof
  assume "py_in (lower f) (lower key)"
  then obtain p t where "lower key = p @ lower f @ t" by (auto simp: py_in_iff)
  then have "map lower_char key = p @ (lower f @ t)" by (simp add: lower_def)
  then obtain before rest where k1: "key = before @ rest"
    and r: "map lower_char rest = lower f @ t"
    by (metis map_eq_append_conv)
  from r obtain block after where k2: "rest = block @ after"
    and b: "lower f = map lower_char block"
    by (metis map_eq_append_conv)
  from b have "lower f = lower block" by (simp add: lower_def)
  then have "list_all2 same_letter f block" by (simp add: lower_eq_iff)
  with k1 k2 show "contains_ignoring_case key f"
    unfolding contains_ignoring_case_def by blast
next
  assume "contains_ignoring_case key f"
  then obtain before block after where k: "key = before @ block @ after"
    and "list_all2 same_letter f block"
    unfolding contains_ignoring_case_def by blast
  then have "lower f = lower block" by (simp add: lower_eq_iff)
  with k have "lower key = lower before @ lower f @ lower after" by (simp add: lower_def)
  then show "py_in (lower f) (lower key)" unfolding py_in_iff by blast
qed

lemma filter_items_contains:
  "f \<noteq> [] \<Longrightarrow>
   filter_items (Some f) items = filter (\<lambda>(k, v). contains_ignoring_case k f) items"
  by (simp add: filter_items_def py_in_lower_iff)

lemma after_value_set_flattened:
  assumes "p \<in> {''yaml_file'', ''key_filter''}"
    and "get_parameter_value self ''yaml_file'' = Some path"
    and "fs path = Inr (YList l) \<or> fs path = Inr (YDict (yaml_dictionary self))"
    and "yaml_dictionary self \<noteq> []"
  shows "\<not> is_raised (after_value_set L fs p self) \<and>
         yaml_list (state_of (after_value_set L fs p self))
           = YDict (filter_items (get_parameter_value self ''key_filter'')
                      (flatten_yaml (yaml_dictionary self) [] ''.''))"
proof -
  let ?items = "filter_items (get_parameter_value self ''key_filter'')
                  (flatten_yaml (yaml_dictionary self) [] ''.'')"
  let ?start = "set_parameter_value ''yaml_data'' (YStr (yaml_dump L (YDict ?items)))
                  (self\<lparr>yaml_list := YDict ?items\<rparr>)"
  note seq = after_value_set_stored[where L = L and fs = fs and p = p and self = self
      and path = path and l = l, OF assms]
  have "\<exists>valid self5. slot_loop L (YDict ?items) 1 (py_iter (YDict ?items)) fixed_names ?start
          = Inr (valid, self5)"
    by (rule slot_loop_dict) (force simp: py_iter_def)
  then obtain valid self5 where
    loop: "slot_loop L (YDict ?items) 1 (py_iter (YDict ?items)) fixed_names ?start
          = Inr (valid, self5)" by blast
  from slot_loop_fields[of L "YDict ?items" 1 "py_iter (YDict ?items)" fixed_names ?start
      _ self5 valid] loop
  have yl: "yaml_list self5 = YDict ?items" by (simp add: set_parameter_value_def)
  have res: "after_value_set L fs p self = Returned (fst (purge_old_parameters valid self5))"
    unfolding seq loop by simp
  show ?thesis by (simp add: res purge_new_fields yl)
qed

lemma after_value_set_stores_first:
  assumes "p \<in> {''yaml_file'', ''key_filter''}"
    and "get_parameter_value self ''yaml_file'' = Some path"
    and "fs path = Inr (YDict d)"
  shows "after_value_set L fs p self = after_value_set L fs p (self\<lparr>yaml_dictionary := d\<rparr>)"
proof -
  have ld: "load_yaml_file fs path = Inr (YDict d)"
    using assms(3) by (rule load_yaml_file_container)
  have g: "get_parameter_value (self\<lparr>yaml_dictionary := d\<rparr>) name
             = get_parameter_value self name" for name
    by (simp add: get_parameter_value_def)
  have g2: "get_parameter_value (self\<lparr>yaml_dictionary := d\<rparr>) ''yaml_file'' = Some path"
    by (simp add: g assms(2))
  show ?thesis
    unfolding after_value_set_loaded[OF assms(1,2) ld]
      after_value_set_loaded[OF assms(1) g2 ld] g
    by simp
qed

lemma after_value_set_sequence_filter:
  assumes "p \<in> {''yaml_file'', ''key_filter''}"
    and "get_parameter_value self ''yaml_file'' = Some path"
    and "get_parameter_value self ''key_filter'' = Some f" and "f \<noteq> []"
    and "fs path = Inr (YList l)" and "yaml_dictionary self = []"
  shows "raises is_attribute_error (after_value_set L fs p self)"
proof -
  have ld: "load_yaml_file fs path = Inr (YList l)"
    using assms(5) by (rule load_yaml_file_container)
  show ?thesis
    unfolding after_value_set_loaded[OF assms(1,2) ld]
    using assms(3,4,6) by (simp add: filter_yaml_list_def)
qed

text \<open>
  Claim C8. With a non-empty filter \<open>f\<close>, the filter step keeps, in order, exactly the
  items whose key contains \<open>f\<close> with case ignored. A pass of \<^verbatim>\<open>process\<close> that loads
  a mapping then holds the parameters of exactly these items and dumps exactly these items
  to \<^verbatim>\<open>yaml_data\<close>; a pass of the second loader that works on a non-empty mapping,
  loaded or stored, returns with exactly these items in \<^verbatim>\<open>yaml_list\<close>. A pass of the
  second loader that loads a sequence while no mapping is stored does not filter: it
  raises \<^verbatim>\<open>AttributeError\<close>, because the filter step calls \<^verbatim>\<open>.items()\<close> on
  the list.
\<close>

theorem key_filter_retains_matches:
  assumes "f \<noteq> []"
    and "get_parameter_value self ''key_filter'' = Some f"
    and "get_parameter_value self ''yaml_file'' = Some path"
    and "get_parameter_value new_self ''key_filter'' = Some f"
    and "get_parameter_value new_self ''yaml_file'' = Some path"
    and "p \<in> {''yaml_file'', ''key_filter''}"
  shows "filter_items (Some f) items
           = filter (\<lambda>(k, v). contains_ignoring_case k f) items \<and>
         (fs path = Inr (YDict yaml_data) \<longrightarrow>
            managed_names (state_of (process L fs self))
              = output_name ` {(k, v). (k, v) \<in> set (flatten_yaml yaml_data [] ''.'') \<and>
                                      contains_ignoring_case k f} \<and>
            parameter_output_values (state_of (process L fs self)) ''yaml_data''
              = Some (YStr (yaml_dump L (YDict
                  (filter (\<lambda>(k, v). contains_ignoring_case k f)
                     (flatten_yaml yaml_data [] ''.'')))))) \<and>
         ((fs path = Inr (YDict M) \<or> (fs path = Inr (YList l) \<and> yaml_dictionary new_self = M))
          \<and> M \<noteq> [] \<longrightarrow>
            \<not> is_raised (after_value_set L fs p new_self) \<and>
            yaml_list (state_of (after_value_set L fs p new_self))
              = YDict (filter (\<lambda>(k, v). contains_ignoring_case k f)
                         (flatten_yaml M [] ''.''))) \<and>
         (fs path = Inr (YList l) \<and> yaml_dictionary new_self = [] \<longrightarrow>
            raises is_attribute_error (after_value_set L fs p new_self))"
proof (intro conjI impI)
  show "filter_items (Some f) items = filter (\<lambda>(k, v). contains_ignoring_case k f) items"
    using assms(1) by (rule filter_items_contains)
next
  assume a: "fs path = Inr (YDict yaml_data)"
  have e: "set (filter (\<lambda>(k, v). contains_ignoring_case k f) xs)
      = {(k, v). (k, v) \<in> set xs \<and> contains_ignoring_case k f}"
    for xs :: "(string \<times> yaml) list" by auto
  show "managed_names (state_of (process L fs self))
      = output_name ` {(k, v). (k, v) \<in> set (flatten_yaml yaml_data [] ''.'') \<and>
                              contains_ignoring_case k f}"
    using process_managed[where L = L and fs = fs, OF assms(3) a]
    by (simp only: assms(2) filter_items_contains[OF assms(1)] e)
  show "parameter_output_values (state_of (process L fs self)) ''yaml_data''
      = Some (YStr (yaml_dump L (YDict
          (filter (\<lambda>(k, v). contains_ignoring_case k f) (flatten_yaml yaml_data [] ''.'')))))"
    by (simp add: process_success[where L = L and fs = fs, OF assms(3) a] assms(2)
          filter_items_contains[OF assms(1)])
next
  assume a: "(fs path = Inr (YDict M) \<or> (fs path = Inr (YList l) \<and> yaml_dictionary new_self = M))
          \<and> M \<noteq> []"
  let ?stored = "new_self\<lparr>yaml_dictionary := M\<rparr>"
  have g: "get_parameter_value ?stored name = get_parameter_value new_self name" for name
    by (simp add: get_parameter_value_def)
  have same: "after_value_set L fs p new_self = after_value_set L fs p ?stored"
  proof (cases "fs path = Inr (YDict M)")
    case True
    then show ?thesis by (rule after_value_set_stores_first[OF assms(6,5)])
  next
    case False
    with a have "yaml_dictionary new_self = M" by simp
    then show ?thesis by auto
  qed
  have src: "fs path = Inr (YList l) \<or> fs path = Inr (YDict (yaml_dictionary ?stored))"
    using a by auto
  have ne: "yaml_dictionary ?stored \<noteq> []" using a by simp
  have gy: "get_parameter_value ?stored ''yaml_file'' = Some path" by (simp add: g assms(5))
  note r = after_value_set_flattened[where L = L and fs = fs and p = p and self = ?stored
      and path = path and l = l, OF assms(6) gy src ne]
  show "\<not> is_raised (after_value_set L fs p new_self)"
    using r by (simp add: same)
  show "yaml_list (state_of (after_value_set L fs p new_self))
      = YDict (filter (\<lambda>(k, v). contains_ignoring_case k f) (flatten_yaml M [] ''.''))"
    using r by (simp add: same g assms(4) filter_items_contains[OF assms(1)])
next
  assume a: "fs path = Inr (YList l) \<and> yaml_dictionary new_self = []"
  show "raises is_attribute_error (after_value_set L fs p new_self)"
    using after_value_set_sequence_filter[where L = L and fs = fs,
        OF assms(6) assms(5) assms(4) assms(1)] a
    by blast
qed

theorem key_filter_retains_matches_witness:
  "filter_items (Some ''name'')
       [(''Name.First'', YStr ''Ada''), (''Name.Last'', YStr ''King''), (''Age'', YInt 36)]
     = [(''Name.First'', YStr ''Ada''), (''Name.Last'', YStr ''King'')] \<and>
   filter_items (Some [CHR 0xE9, CHR ''t'']) [([CHR 0xC9, CHR ''t'', CHR 0xE9], YInt 1)]
     = [([CHR 0xC9, CHR ''t'', CHR 0xE9], YInt 1)] \<and>
   managed_names (state_of (process stub_lib
       (one_file (Inr (YDict [(''Name'', YDict [(''First'', YStr ''Ada''), (''Last'', YStr ''King'')]),
                              (''Age'', YInt 36)])))
       (file_node\<lparr>parameter_values :=
          [''yaml_file'' \<mapsto> YStr ''config.yaml'', ''key_filter'' \<mapsto> YStr ''name'']\<rparr>)))
     = {''output_Name.First'', ''output_Name.Last''} \<and>
   raises is_attribute_error (after_value_set stub_lib
       (one_file (Inr (YList [YStr ''name'', YStr ''age''])))
       ''key_filter''
       (new_file_node\<lparr>parameter_values :=
          [''yaml_file'' \<mapsto> YStr ''config.yaml'', ''key_filter'' \<mapsto> YStr ''name'']\<rparr>))"
proof -
  let ?doc = "[(''Name'', YDict [(''First'', YStr ''Ada''), (''Last'', YStr ''King'')]),
               (''Age'', YInt 36)]"
  let ?self = "file_node\<lparr>parameter_values :=
          [''yaml_file'' \<mapsto> YStr ''config.yaml'', ''key_filter'' \<mapsto> YStr ''name'']\<rparr>"
  let ?new = "new_file_node\<lparr>parameter_values :=
          [''yaml_file'' \<mapsto> YStr ''config.yaml'', ''key_filter'' \<mapsto> YStr ''name'']\<rparr>"
  let ?seq = "[YStr ''name'', YStr ''age'']"
  have f: "''name'' \<noteq> []" by simp
  have k: "get_parameter_value ?self ''key_filter'' = Some ''name''"
    by (simp add: get_parameter_value_def)
  have y: "get_parameter_value ?self ''yaml_file'' = Some ''config.yaml''"
    by (simp add: get_parameter_value_def)
  have k': "get_parameter_value ?new ''key_filter'' = Some ''name''"
    by (simp add: get_parameter_value_def)
  have y': "get_parameter_value ?new ''yaml_file'' = Some ''config.yaml''"
    by (simp add: get_parameter_value_def)
  have p: "''key_filter'' \<in> {''yaml_file'', ''key_filter''}" by simp
  note th = key_filter_retains_matches[where L = stub_lib and f = "''name''"
      and self = ?self and new_self = ?new and path = "''config.yaml''"
      and p = "''key_filter''" and fs = "one_file (Inr (YList ?seq))" and l = ?seq
      and yaml_data = ?doc and M = "[]"
      and items = "[(''Name.First'', YStr ''Ada''), (''Name.Last'', YStr ''King''),
                    (''Age'', YInt 36)]", OF f k y k' y' p]
  have seq: "one_file (Inr (YList ?seq)) ''config.yaml'' = Inr (YList ?seq) \<and>
      yaml_dictionary ?new = []"
    by (simp add: new_file_node_def new_init_node_def)
  note bug = th[THEN conjunct2, THEN conjunct2, THEN conjunct2, THEN mp, OF seq]
  have m: "managed_names (state_of (process stub_lib (one_file (Inr (YDict ?doc))) ?self))
      = {''output_Name.First'', ''output_Name.Last''}"
    by (simp add: node_simps eval_simps lower_def lower_char_def)
  have i: "filter_items (Some ''name'')
       [(''Name.First'', YStr ''Ada''), (''Name.Last'', YStr ''King''), (''Age'', YInt 36)]
     = [(''Name.First'', YStr ''Ada''), (''Name.Last'', YStr ''King'')]"
    by (simp add: filter_items_def lower_def lower_char_def char_of_def bit_Suc_0_iff)
  have a: "filter_items (Some [CHR 0xE9, CHR ''t'']) [([CHR 0xC9, CHR ''t'', CHR 0xE9], YInt 1)]
     = [([CHR 0xC9, CHR ''t'', CHR 0xE9], YInt 1)]"
    by (simp add: filter_items_def lower_def lower_char_def char_of_def bit_Suc_0_iff)
  from i a m bug show ?thesis by (intro conjI)
qed

end
